theory Spec2Isabelle
  imports Complex_Main
begin

section \<open>The PHD2 client (guider.py): data model\<close>

text \<open>
  Python values that travel as JSON: request parameters and decoded responses.
  A dict is an association list in insertion order (the order \<open>json.dumps\<close> prints).
  Floats are idealised as real numbers.
\<close>

datatype pyval =
    PNone
  | PBool bool
  | PInt int
  | PFloat real
  | PStr string
  | PList "pyval list"
  | PDict "(string \<times> pyval) list"

type_synonym pydict = "(string \<times> pyval) list"

text \<open>
  The exceptions the client raises. \<open>GuiderError\<close> carries its message, which for a server
  error is whatever value the response holds under \<open>error.message\<close>; \<open>NotConnectedError\<close>
  is the subclass raised without a connection; \<open>RuntimeError\<close>, \<open>ValueError\<close>,
  \<open>AssertionError\<close>, \<open>KeyError\<close> and \<open>TypeError\<close> are Python's own.
\<close>

datatype error =
    NotConnectedError
  | GuiderError pyval
  | RuntimeError string
  | ValueError string
  | AssertionError
  | KeyError string
  | TypeError

record SettleProgress =
  Done :: bool
  Distance :: real
  SettlePx :: real
  Time :: real
  SettleTime :: real
  Status :: int
  Error :: "string option"

text \<open>The dataclass defaults: what \<open>SettleProgress()\<close> constructs.\<close>

definition SettleProgress_init :: SettleProgress where
  "SettleProgress_init =
     \<lparr>Done = False, Distance = 0, SettlePx = 0, Time = 0, SettleTime = 0, Status = 0,
      Error = None\<rparr>"

record GuideStats =
  rms_tot :: real
  rms_ra :: real
  rms_dec :: real
  peak_ra :: real
  peak_dec :: real

definition GuideStats_init :: GuideStats where
  "GuideStats_init = \<lparr>rms_tot = 0, rms_ra = 0, rms_dec = 0, peak_ra = 0, peak_dec = 0\<rparr>"

subsection \<open>The running-statistics accumulator \<open>_Accum\<close>\<close>

record Accum =
  n :: int
  a :: real
  q :: real
  peak :: real

definition Reset :: "Accum \<Rightarrow> Accum" where
  "Reset self = self\<lparr>n := 0, a := 0, q := 0, peak := 0\<rparr>"

definition Add :: "Accum \<Rightarrow> real \<Rightarrow> Accum" where
  "Add self x =
     (let ax = \<bar>x\<bar>;
          self = (if ax > peak self then self\<lparr>peak := ax\<rparr> else self);
          self = self\<lparr>n := n self + 1\<rparr>;
          d = x - a self;
          self = self\<lparr>a := a self + d / real_of_int (n self)\<rparr>;
          self = self\<lparr>q := q self + (x - a self) * d\<rparr>
      in self)"

definition Mean :: "Accum \<Rightarrow> real" where
  "Mean self = a self"

text \<open>\<open>math.sqrt\<close> raises \<open>ValueError\<close> on a negative argument.\<close>

definition Stdev :: "Accum \<Rightarrow> error + real" where
  "Stdev self =
     (if n self \<ge> 1 then
        (if q self / real_of_int (n self) < 0 then Inl (ValueError ''math domain error'')
         else Inr (sqrt (q self / real_of_int (n self))))
      else Inr 0)"

definition Peak :: "Accum \<Rightarrow> real" where
  "Peak self = peak self"

subsection \<open>The connection \<open>_Conn\<close>: socket, line framing, writing\<close>

text \<open>
  The socket is the environment of the client. Its model is a script: \<open>outbound\<close> holds the
  bytes that \<open>send\<close> has accepted so far, \<open>send_caps\<close> says how many bytes each coming call
  of \<open>send\<close> can take (when the list is used up, or the entry is 0, \<open>send\<close> returns 0, as
  on a broken connection), and \<open>recv_data\<close> lists what the coming calls of \<open>recv\<close> return
  (when it is used up the socket never becomes readable again). The operating system's
  own errors (\<open>OSError\<close>) are not in the script.
\<close>

record socket =
  outbound :: string
  send_caps :: "nat list"
  recv_data :: "string list"

definition send :: "socket \<Rightarrow> string \<Rightarrow> nat \<times> socket" where
  "send sk data =
     (case send_caps sk of
        [] \<Rightarrow> (0, sk)
      | c # cs \<Rightarrow>
          (let k = min c (length data)
           in (k, sk\<lparr>outbound := outbound sk @ take k data, send_caps := cs\<rparr>)))"

definition recv :: "socket \<Rightarrow> (string \<times> socket) option" where
  "recv sk =
     (case recv_data sk of
        [] \<Rightarrow> None
      | s # rest \<Rightarrow> Some (s, sk\<lparr>recv_data := rest\<rparr>))"

datatype selector = DefaultSelector

record Conn =
  lines :: "string list"
  buf :: string
  sock :: "socket option"
  sel :: "selector option"
  terminate :: bool

definition Conn_init :: Conn where
  "Conn_init = \<lparr>lines = [], buf = [], sock = None, sel = None, Conn.terminate = False\<rparr>"

definition IsConnected :: "Conn \<Rightarrow> bool" where
  "IsConnected self = (sock self \<noteq> None)"

definition CR :: char where "CR = CHR 0x0D"
definition LF :: char where "LF = CHR 0x0A"

text \<open>Python's slice \<open>s[i0:i]\<close> for \<open>0 \<le> i0\<close> and \<open>0 \<le> i\<close>.\<close>

definition slice :: "'a list \<Rightarrow> nat \<Rightarrow> nat \<Rightarrow> 'a list" where
  "slice s i0 i = take (i - i0) (drop i0 s)"

text \<open>
  The scan of one received chunk in \<open>ReadLine\<close>: the loop \<open>while i < len(s)\<close> with its
  two indices, then the statement \<open>self.buf += s[i0:i]\<close> that follows it.
\<close>

function scan_loop :: "Conn \<Rightarrow> string \<Rightarrow> nat \<Rightarrow> nat \<Rightarrow> Conn \<times> nat \<times> nat" where
  "scan_loop self s i0 i =
     (if i < length s then
        (if s ! i = CR \<or> s ! i = LF then
           (let self = self\<lparr>buf := buf self @ slice s i0 i\<rparr>;
                self = (if buf self \<noteq> []
                        then self\<lparr>lines := lines self @ [buf self], buf := []\<rparr>
                        else self)
            in scan_loop self s (i + 1) (i + 1))
         else scan_loop self s i0 (i + 1))
      else (self, i0, i))"
  by pat_completeness auto
termination
  by (relation "measure (\<lambda>(self, s, i0, i). length s - i)") auto

declare scan_loop.simps [simp del]

definition scan :: "Conn \<Rightarrow> string \<Rightarrow> Conn" where
  "scan self s =
     (case scan_loop self s 0 0 of
        (self, i0, i) \<Rightarrow> self\<lparr>buf := buf self @ slice s i0 i\<rparr>)"

text \<open>
  \<open>ReadLine\<close>. The result is \<open>None\<close> when the call never returns: the queue of lines is
  empty, \<open>terminate\<close> is not set and the socket never becomes readable. An exception
  comes with the connection as it is left. Each entry of \<open>recv_data\<close> is what one call
  \<open>recv(4096)\<close> returns.
\<close>

function ReadLine :: "Conn \<Rightarrow> ((error \<times> Conn) + (string \<times> Conn)) option" where
  "ReadLine self =
     (if sock self = None \<or> sel self = None then Some (Inl (AssertionError, self))
      else if lines self = [] then
        (if Conn.terminate self then Some (Inr ('''', self))
         else
           (case sock self of
              None \<Rightarrow> Some (Inl (AssertionError, self))
            | Some sk \<Rightarrow>
                (case recv sk of
                   None \<Rightarrow> None
                 | Some (s, sk') \<Rightarrow> ReadLine (scan (self\<lparr>sock := Some sk'\<rparr>) s))))
      else Some (Inr (hd (lines self), self\<lparr>lines := tl (lines self)\<rparr>)))"
  by pat_completeness auto
termination
proof (relation "measure (\<lambda>self. case sock self of None \<Rightarrow> 0
                                     | Some sk \<Rightarrow> length (recv_data sk))")
  show "wf (measure (\<lambda>self. case sock self of None \<Rightarrow> 0
                                     | Some sk \<Rightarrow> length (recv_data sk)))"
    by simp
next
  fix self :: Conn and x2 x2a x y
  assume r: "sock self = Some x2" "recv x2 = Some x2a" "(x, y) = x2a"
  have keep: "sock (fst (scan_loop c s i0 i)) = sock c" for c s i0 i
  proof (induction c s i0 i rule: scan_loop.induct)
    case (1 self s i0 i)
    show ?case
    proof (cases "i < length s")
      case False
      then show ?thesis by (subst scan_loop.simps) simp
    next
      case inside: True
      show ?thesis
      proof (cases "s ! i = CR \<or> s ! i = LF")
        case True
        from "1.IH"(1) [OF inside True refl refl] inside True show ?thesis
          by (subst scan_loop.simps) (simp add: Let_def split: if_splits)
      next
        case False
        from "1.IH"(2) [OF inside False] inside False show ?thesis
          by (subst scan_loop.simps) simp
      qed
    qed
  qed
  have "sock (scan (self\<lparr>sock := Some y\<rparr>) x) = Some y"
    using keep [of "self\<lparr>sock := Some y\<rparr>" x 0 0]
    by (cases "scan_loop (self\<lparr>sock := Some y\<rparr>) x 0 0") (simp add: scan_def)
  moreover have "length (recv_data y) < length (recv_data x2)"
    using r by (auto simp add: recv_def split: list.splits)
  ultimately show "(scan (self\<lparr>sock := Some y\<rparr>) x, self)
        \<in> measure (\<lambda>self. case sock self of None \<Rightarrow> 0
                                     | Some sk \<Rightarrow> length (recv_data sk))"
    using r by simp
qed

declare ReadLine.simps [simp del]

text \<open>
  \<open>WriteLine\<close>: the loop over partial sends. It writes the encoded string and nothing
  else; a \<open>send\<close> that returns 0 raises \<open>RuntimeError\<close>.
\<close>

function write_loop :: "socket \<Rightarrow> string \<Rightarrow> nat \<Rightarrow> (error \<times> socket) + socket" where
  "write_loop sk b totsent =
     (if totsent < length b then
        (case send sk (drop totsent b) of
           (sent, sk') \<Rightarrow>
             (if sent = 0 then Inl (RuntimeError ''socket connection broken'', sk')
              else write_loop sk' b (totsent + sent)))
      else Inr sk)"
  by pat_completeness auto
termination
  by (relation "measure (\<lambda>(sk, b, totsent). length b - totsent)") auto

declare write_loop.simps [simp del]

definition WriteLine :: "Conn \<Rightarrow> string \<Rightarrow> (error \<times> Conn) + Conn" where
  "WriteLine self s =
     (case sock self of
        None \<Rightarrow> Inl (AssertionError, self)
      | Some sk \<Rightarrow>
          (case write_loop sk s 0 of
             Inl (e, sk') \<Rightarrow> Inl (e, self\<lparr>sock := Some sk'\<rparr>)
           | Inr sk' \<Rightarrow> Inr (self\<lparr>sock := Some sk'\<rparr>)))"

subsection \<open>JSON-RPC requests\<close>

text \<open>Python's \<open>d[k] = v\<close> and \<open>k in d\<close> on a dict kept in insertion order.\<close>

fun setitem :: "pydict \<Rightarrow> string \<Rightarrow> pyval \<Rightarrow> pydict" where
  "setitem [] k v = [(k, v)]"
| "setitem ((k', v') # d) k v = (if k' = k then (k, v) # d else (k', v') # setitem d k v)"

definition contains :: "pydict \<Rightarrow> string \<Rightarrow> bool" where
  "contains d k = (k \<in> fst ` set d)"

text \<open>\<open>isinstance(params, (list, dict))\<close>\<close>

fun isinstance_list_dict :: "pyval \<Rightarrow> bool" where
  "isinstance_list_dict (PList _) = True"
| "isinstance_list_dict (PDict _) = True"
| "isinstance_list_dict _ = False"

text \<open>
  \<open>_make_jsonrpc\<close>. The serialiser \<open>json.dumps(req, separators=(",", ":"))\<close> belongs to
  Python's library and is a parameter \<open>dumps\<close>; the function builds the request object
  and hands it over.
\<close>

definition make_jsonrpc :: "(pyval \<Rightarrow> 'b) \<Rightarrow> string \<Rightarrow> pyval \<Rightarrow> 'b" where
  "make_jsonrpc dumps method params =
     (let req = [(''method'', PStr method), (''id'', PInt 1)];
          req = (if params \<noteq> PNone then
                   (if isinstance_list_dict params then setitem req ''params'' params
                    else setitem req ''params'' (PList [params]))
                 else req)
      in dumps (PDict req))"

text \<open>
  A reference rendering of \<open>json.dumps\<close> with the compact separators, used to instantiate
  \<open>dumps\<close> at concrete inputs. It prints what Python prints for \<open>None\<close>, booleans,
  integers, strings of printable ASCII characters, floats that have a short decimal
  expansion and a magnitude for which Python uses no exponent, and lists and dicts of
  such values.
\<close>

fun nat_repr :: "nat \<Rightarrow> string" where
  "nat_repr k = (if k < 10 then [''0123456789'' ! k]
                 else nat_repr (k div 10) @ [''0123456789'' ! (k mod 10)])"

declare nat_repr.simps [simp del]

definition int_repr :: "int \<Rightarrow> string" where
  "int_repr i = (if i < 0 then ''-'' @ nat_repr (nat (- i)) else nat_repr (nat i))"

fun frac_repr :: "nat \<Rightarrow> real \<Rightarrow> string" where
  "frac_repr 0 f = []"
| "frac_repr (Suc k) f =
     (let d = \<lfloor>10 * f\<rfloor>
      in (''0123456789'' ! nat d)
         # (if 10 * f = real_of_int d then [] else frac_repr k (10 * f - real_of_int d)))"

definition float_repr :: "real \<Rightarrow> string" where
  "float_repr r =
     (let m = \<bar>r\<bar>; ip = \<lfloor>m\<rfloor>
      in (if r < 0 then ''-'' else []) @ nat_repr (nat ip) @ ''.''
         @ frac_repr 17 (m - real_of_int ip))"

definition str_repr :: "string \<Rightarrow> string" where
  "str_repr s =
     [CHR 0x22]
     @ concat (map (\<lambda>c. if c = CHR 0x22 \<or> c = CHR 0x5C then [CHR 0x5C, c] else [c]) s)
     @ [CHR 0x22]"

fun json_dumps :: "pyval \<Rightarrow> string"
  and dumps_items :: "pyval list \<Rightarrow> string"
  and dumps_members :: "(string \<times> pyval) list \<Rightarrow> string" where
  "json_dumps PNone = ''null''"
| "json_dumps (PBool b) = (if b then ''true'' else ''false'')"
| "json_dumps (PInt i) = int_repr i"
| "json_dumps (PFloat r) = float_repr r"
| "json_dumps (PStr s) = str_repr s"
| "json_dumps (PList vs) = ''['' @ dumps_items vs @ '']''"
| "json_dumps (PDict kvs) = ''{'' @ dumps_members kvs @ ''}''"
| "dumps_items [] = []"
| "dumps_items [v] = json_dumps v"
| "dumps_items (v # w # vs) = json_dumps v @ '','' @ dumps_items (w # vs)"
| "dumps_members [] = []"
| "dumps_members [(k, v)] = str_repr k @ '':'' @ json_dumps v"
| "dumps_members ((k, v) # kw # kvs) =
     str_repr k @ '':'' @ json_dumps v @ '','' @ dumps_members (kw # kvs)"

subsection \<open>The session \<open>Guider\<close>\<close>

text \<open>\<open>Subframe x y width height\<close> and \<open>SingleFrameResult success error_message path\<close>.\<close>

datatype Subframe = Subframe int int int int

datatype SingleFrameResult = SingleFrameResult bool "string option" "string option"

text \<open>
  The fields of the class. The thread handle \<open>worker\<close> and the synchronisation objects
  \<open>lock\<close> and \<open>cond\<close> have no counterpart: the reader thread is the function \<open>worker\<close>
  below, run on the messages that arrive. In the source \<open>accum_ra\<close> and \<open>accum_dec\<close> are
  attributes of the class, shared by its instances; the model is of one session.
\<close>

record Guider =
  hostname :: string
  instance_no :: int
  conn :: "Conn option"
  terminate :: bool
  response :: "pydict option"
  AppState :: string
  AvgDist :: real
  Version :: string
  PHDSubver :: string
  accum_active :: bool
  settle_px :: real
  accum_ra :: Accum
  accum_dec :: Accum
  Stats :: GuideStats
  Settle :: "SettleProgress option"
  single_frame :: "SingleFrameResult option"

definition Accum_init :: Accum where
  "Accum_init = Reset \<lparr>n = 0, a = 0, q = 0, peak = 0\<rparr>"

definition Guider_init :: "string \<Rightarrow> int \<Rightarrow> Guider" where
  "Guider_init host inst =
     \<lparr>hostname = host, instance_no = inst, conn = None, Guider.terminate = False,
      response = None, AppState = [], AvgDist = 0, Version = [], PHDSubver = [],
      accum_active = False, settle_px = 0, accum_ra = Accum_init, accum_dec = Accum_init,
      Stats = GuideStats_init, Settle = None, single_frame = None\<rparr>"

text \<open>
  The state of a session that \<open>Connect\<close> has just connected: \<open>conn\<close> is a fresh \<open>_Conn\<close>
  whose \<open>Connect\<close> has stored the socket \<open>sk\<close> and registered it with a selector, and
  \<open>terminate\<close> is \<open>False\<close>.
\<close>

definition connected_to :: "Guider \<Rightarrow> socket \<Rightarrow> Guider" where
  "connected_to self sk =
     self\<lparr>conn := Some (Conn_init\<lparr>sock := Some sk, sel := Some DefaultSelector\<rparr>),
          Guider.terminate := False\<rparr>"

text \<open>
  A server event, decoded: the constructor is the value of the \<open>Event\<close> key and its
  arguments are the fields that \<open>_handle_event\<close> reads from the object, in the order
  \<open>State\<close>; \<open>PHDVersion\<close>, \<open>PHDSubver\<close>; \<open>RADistanceRaw\<close>, \<open>DECDistanceRaw\<close>,
  \<open>AvgDist\<close>; \<open>Distance\<close>, \<open>Time\<close>, \<open>SettleTime\<close>; \<open>Status\<close>, \<open>Error\<close>; \<open>AvgDist\<close>;
  \<open>Success\<close>, \<open>Error\<close>, \<open>Path\<close>. The fields have the types the class annotates.
\<close>

datatype event =
    AppStateEvent string
  | VersionEvent string string
  | StartGuiding
  | GuideStep real real real
  | SettleBegin
  | Settling real real real
  | SettleDone int "string option"
  | Paused
  | StartCalibration
  | LoopingExposures
  | LoopingExposuresStopped
  | GuidingStopped
  | StarLost real
  | SingleFrameComplete bool "string option" "string option"
  | OtherEvent string

text \<open>
  A line as the reader thread sees it after \<open>json.loads\<close>: \<open>Invalid\<close> when decoding
  raises \<open>JSONDecodeError\<close>, \<open>Response j\<close> for an object \<open>j\<close> that has the key
  \<open>jsonrpc\<close>, \<open>Event ev\<close> for any other object.
\<close>

datatype message = Invalid | Response pydict | Event event

definition is_guiding :: "string \<Rightarrow> bool" where
  "is_guiding st = (st = ''Guiding'' \<or> st = ''LostLock'')"

definition accum_get_stats :: "Accum \<Rightarrow> Accum \<Rightarrow> error + GuideStats" where
  "accum_get_stats ra dec =
     (let stats = GuideStats_init in
      case Stdev ra of
        Inl e \<Rightarrow> Inl e
      | Inr sd_ra \<Rightarrow>
          (case Stdev dec of
             Inl e \<Rightarrow> Inl e
           | Inr sd_dec \<Rightarrow>
               Inr (stats\<lparr>rms_ra := sd_ra, rms_dec := sd_dec,
                          peak_ra := Peak ra, peak_dec := Peak dec\<rparr>)))"

text \<open>
  \<open>_handle_event\<close>, one equation for each branch. An exception (only \<open>Stdev\<close> can raise
  one) leaves the reader thread.
\<close>

fun handle_event :: "Guider \<Rightarrow> event \<Rightarrow> error + Guider" where
  "handle_event self (AppStateEvent st) =
     (let self = self\<lparr>AppState := st\<rparr>
      in Inr (if is_guiding (AppState self) then self\<lparr>AvgDist := 0\<rparr> else self))"
| "handle_event self (VersionEvent v sv) = Inr (self\<lparr>Version := v, PHDSubver := sv\<rparr>)"
| "handle_event self StartGuiding =
     (let self = self\<lparr>accum_active := True\<rparr>;
          self = self\<lparr>accum_ra := Reset (accum_ra self)\<rparr>;
          self = self\<lparr>accum_dec := Reset (accum_dec self)\<rparr>
      in case accum_get_stats (accum_ra self) (accum_dec self) of
           Inl e \<Rightarrow> Inl e
         | Inr stats \<Rightarrow> Inr (self\<lparr>Stats := stats\<rparr>))"
| "handle_event self (GuideStep ra_raw dec_raw avg) =
     (if accum_active self then
        (let self = self\<lparr>accum_ra := Add (accum_ra self) ra_raw\<rparr>;
             self = self\<lparr>accum_dec := Add (accum_dec self) dec_raw\<rparr>
         in case accum_get_stats (accum_ra self) (accum_dec self) of
              Inl e \<Rightarrow> Inl e
            | Inr stats \<Rightarrow>
                Inr (self\<lparr>AppState := ''Guiding'', AvgDist := avg, Stats := stats\<rparr>))
      else Inr (self\<lparr>AppState := ''Guiding'', AvgDist := avg\<rparr>))"
| "handle_event self SettleBegin = Inr (self\<lparr>accum_active := False\<rparr>)"
| "handle_event self (Settling dst tm stm) =
     (let s = SettleProgress_init;
          s = s\<lparr>Done := False\<rparr>;
          s = s\<lparr>Distance := dst\<rparr>;
          s = s\<lparr>SettlePx := settle_px self\<rparr>;
          s = s\<lparr>Time := tm\<rparr>;
          s = s\<lparr>SettleTime := stm\<rparr>;
          s = s\<lparr>Status := 0\<rparr>
      in Inr (self\<lparr>Settle := Some s\<rparr>))"
| "handle_event self (SettleDone status err) =
     (let self = self\<lparr>accum_active := True\<rparr>;
          self = self\<lparr>accum_ra := Reset (accum_ra self)\<rparr>;
          self = self\<lparr>accum_dec := Reset (accum_dec self)\<rparr>
      in case accum_get_stats (accum_ra self) (accum_dec self) of
           Inl e \<Rightarrow> Inl e
         | Inr stats \<Rightarrow>
             (let s = SettleProgress_init;
                  s = s\<lparr>Done := True\<rparr>;
                  s = s\<lparr>Status := status\<rparr>;
                  s = s\<lparr>Error := err\<rparr>
              in Inr (self\<lparr>Settle := Some s, Stats := stats\<rparr>)))"
| "handle_event self Paused = Inr (self\<lparr>AppState := ''Paused''\<rparr>)"
| "handle_event self StartCalibration = Inr (self\<lparr>AppState := ''Calibrating''\<rparr>)"
| "handle_event self LoopingExposures = Inr (self\<lparr>AppState := ''Looping''\<rparr>)"
| "handle_event self LoopingExposuresStopped = Inr (self\<lparr>AppState := ''Stopped''\<rparr>)"
| "handle_event self GuidingStopped = Inr (self\<lparr>AppState := ''Stopped''\<rparr>)"
| "handle_event self (StarLost avg) = Inr (self\<lparr>AppState := ''LostLock'', AvgDist := avg\<rparr>)"
| "handle_event self (SingleFrameComplete ok err pth) =
     Inr (self\<lparr>single_frame := Some (SingleFrameResult ok err pth)\<rparr>)"
| "handle_event self (OtherEvent e) = Inr self"

text \<open>
  The reader thread \<open>_worker\<close>: the body of its loop for one decoded line, and the loop
  over the lines that arrive. The end of the list is the reader waiting in \<open>ReadLine\<close>.
\<close>

definition worker_step :: "Guider \<Rightarrow> message \<Rightarrow> error + Guider" where
  "worker_step self m =
     (case m of
        Invalid \<Rightarrow> Inr self
      | Response j \<Rightarrow> Inr (self\<lparr>response := Some j\<rparr>)
      | Event ev \<Rightarrow> handle_event self ev)"

fun worker :: "Guider \<Rightarrow> message list \<Rightarrow> error + Guider" where
  "worker self [] = Inr self"
| "worker self (m # ms) =
     (if Guider.terminate self then Inr self
      else case worker_step self m of
             Inl e \<Rightarrow> Inl e
           | Inr self' \<Rightarrow> worker self' ms)"

subsection \<open>RPC calls\<close>

type_synonym 'r result = "(error \<times> Guider) + ('r \<times> Guider)"

definition failed :: "pydict \<Rightarrow> bool" where
  "failed res = contains res ''error''"

text \<open>The exception of \<open>raise GuiderError(response["error"]["message"])\<close>.\<close>

definition error_message :: "pydict \<Rightarrow> error" where
  "error_message res =
     (case map_of res ''error'' of
        None \<Rightarrow> KeyError ''error''
      | Some (PDict d) \<Rightarrow>
          (case map_of d ''message'' of
             None \<Rightarrow> KeyError ''message''
           | Some msg \<Rightarrow> GuiderError msg)
      | Some _ \<Rightarrow> TypeError)"

text \<open>\<open>not self.response\<close>: the slot is \<open>None\<close> or holds an empty dict.\<close>

definition no_response :: "Guider \<Rightarrow> bool" where
  "no_response self = (response self = None \<or> response self = Some [])"

text \<open>
  The wait \<open>while not self.response: self.cond.wait()\<close> of a caller, with the messages
  \<open>msgs\<close> that the reader thread handles meanwhile. \<open>None\<close>: the caller waits for ever
  (no response among the messages, or the reader thread has ended).
\<close>

fun await_response :: "Guider \<Rightarrow> message list \<Rightarrow> (pydict \<times> Guider) option" where
  "await_response self [] =
     (case response self of
        None \<Rightarrow> None
      | Some r \<Rightarrow> if r = [] then None else Some (r, self))"
| "await_response self (m # ms) =
     (if no_response self then
        (if Guider.terminate self then None
         else case worker_step self m of
                Inl e \<Rightarrow> None
              | Inr self' \<Rightarrow> await_response self' ms)
      else (case response self of
              None \<Rightarrow> None
            | Some r \<Rightarrow> Some (r, self)))"

definition Call ::
  "(pyval \<Rightarrow> string) \<Rightarrow> Guider \<Rightarrow> string \<Rightarrow> pyval \<Rightarrow> message list \<Rightarrow> pydict result option"
where
  "Call dumps self method params msgs =
     (case conn self of
        None \<Rightarrow> Some (Inl (NotConnectedError, self))
      | Some c \<Rightarrow>
          (let s = make_jsonrpc dumps method params
           in case WriteLine c (s @ [CR, LF]) of
                Inl (e, c') \<Rightarrow> Some (Inl (e, self\<lparr>conn := Some c'\<rparr>))
              | Inr c' \<Rightarrow>
                  (case await_response (self\<lparr>conn := Some c'\<rparr>) msgs of
                     None \<Rightarrow> None
                   | Some (resp, self') \<Rightarrow>
                       (let self' = self'\<lparr>response := None\<rparr>
                        in if failed resp then Some (Inl (error_message resp, self'))
                           else Some (Inr (resp, self'))))))"

definition CheckConnected :: "Guider \<Rightarrow> error + unit" where
  "CheckConnected self =
     (case conn self of
        None \<Rightarrow> Inl NotConnectedError
      | Some c \<Rightarrow>
          if \<not> IsConnected c then Inl (GuiderError (PStr ''PHD2 Server disconnected''))
          else Inr ())"

subsection \<open>Operations of the session\<close>

definition Guide ::
  "(pyval \<Rightarrow> string) \<Rightarrow> Guider \<Rightarrow> real \<Rightarrow> real \<Rightarrow> real \<Rightarrow> message list \<Rightarrow> unit result option"
where
  "Guide dumps self settlePixels settleTime settleTimeout msgs =
     (case CheckConnected self of
        Inl e \<Rightarrow> Some (Inl (e, self))
      | Inr _ \<Rightarrow>
          (let s = SettleProgress_init;
               s = s\<lparr>Done := False\<rparr>;
               s = s\<lparr>Distance := 0\<rparr>;
               s = s\<lparr>SettlePx := settlePixels\<rparr>;
               s = s\<lparr>Time := 0\<rparr>;
               s = s\<lparr>SettleTime := settleTime\<rparr>;
               s = s\<lparr>Status := 0\<rparr>
           in if (case Settle self of None \<Rightarrow> False | Some t \<Rightarrow> \<not> Done t)
              then Some (Inl (GuiderError (PStr ''cannot guide while settling''), self))
              else
                (case Call dumps (self\<lparr>Settle := Some s\<rparr>) ''guide''
                        (PList [PDict [(''pixels'', PFloat settlePixels),
                                       (''time'', PFloat settleTime),
                                       (''timeout'', PFloat settleTimeout)],
                                PBool False]) msgs of
                   None \<Rightarrow> None
                 | Some (Inl (e, self')) \<Rightarrow> Some (Inl (e, self'\<lparr>Settle := None\<rparr>))
                 | Some (Inr (_, self')) \<Rightarrow>
                     Some (Inr ((), self'\<lparr>settle_px := settlePixels\<rparr>)))))"

definition Dither ::
  "(pyval \<Rightarrow> string) \<Rightarrow> Guider \<Rightarrow> real \<Rightarrow> real \<Rightarrow> real \<Rightarrow> real \<Rightarrow> message list
     \<Rightarrow> unit result option"
where
  "Dither dumps self ditherPixels settlePixels settleTime settleTimeout msgs =
     (case CheckConnected self of
        Inl e \<Rightarrow> Some (Inl (e, self))
      | Inr _ \<Rightarrow>
          (let s = SettleProgress_init;
               s = s\<lparr>Done := False\<rparr>;
               s = s\<lparr>Distance := ditherPixels\<rparr>;
               s = s\<lparr>SettlePx := settlePixels\<rparr>;
               s = s\<lparr>Time := 0\<rparr>;
               s = s\<lparr>SettleTime := settleTime\<rparr>;
               s = s\<lparr>Status := 0\<rparr>
           in if (case Settle self of None \<Rightarrow> False | Some t \<Rightarrow> \<not> Done t)
              then Some (Inl (GuiderError (PStr ''cannot dither while settling''), self))
              else
                (case Call dumps (self\<lparr>Settle := Some s\<rparr>) ''dither''
                        (PList [PFloat ditherPixels,
                                PBool False,
                                PDict [(''pixels'', PFloat settlePixels),
                                       (''time'', PFloat settleTime),
                                       (''timeout'', PFloat settleTimeout)]]) msgs of
                   None \<Rightarrow> None
                 | Some (Inl (e, self')) \<Rightarrow> Some (Inl (e, self'\<lparr>Settle := None\<rparr>))
                 | Some (Inr (_, self')) \<Rightarrow>
                     Some (Inr ((), self'\<lparr>settle_px := settlePixels\<rparr>)))))"

definition CheckSettling :: "Guider \<Rightarrow> SettleProgress result" where
  "CheckSettling self =
     (case CheckConnected self of
        Inl e \<Rightarrow> Inl (e, self)
      | Inr _ \<Rightarrow>
          (let ret = SettleProgress_init
           in case Settle self of
                None \<Rightarrow> Inl (GuiderError (PStr ''not settling''), self)
              | Some st \<Rightarrow>
                  if Done st then
                    Inr (ret\<lparr>Done := True, Status := Status st, Error := Error st\<rparr>,
                         self\<lparr>Settle := None\<rparr>)
                  else
                    Inr (ret\<lparr>Done := False, Distance := Distance st,
                              SettlePx := settle_px self, Time := Time st,
                              SettleTime := SettleTime st\<rparr>,
                         self)))"

definition CaptureSingleFrame ::
  "(pyval \<Rightarrow> string) \<Rightarrow> Guider \<Rightarrow> int option \<Rightarrow> int option \<Rightarrow> int option \<Rightarrow> Subframe option
     \<Rightarrow> string option \<Rightarrow> bool option \<Rightarrow> message list \<Rightarrow> unit result option"
where
  "CaptureSingleFrame dumps self exposure binning gain roi path save msgs =
     (if path \<noteq> None \<and> save = Some False then
        Some (Inl (ValueError
          ''invalid arguments: when save is False, the path argument should be omitted'',
          self))
      else
        (let params = [];
             params = (case exposure of None \<Rightarrow> params
                       | Some v \<Rightarrow> setitem params ''exposure'' (PInt v));
             params = (case binning of None \<Rightarrow> params
                       | Some v \<Rightarrow> setitem params ''binning'' (PInt v));
             params = (case gain of None \<Rightarrow> params
                       | Some v \<Rightarrow> setitem params ''gain'' (PInt v));
             params = (case roi of None \<Rightarrow> params
                       | Some (Subframe rx ry rwidth rheight) \<Rightarrow>
                           setitem params ''subframe''
                             (PList [PInt rx, PInt ry, PInt rwidth, PInt rheight]));
             params = (case path of None \<Rightarrow> params
                       | Some v \<Rightarrow> setitem params ''path'' (PStr v));
             params = (case save of None \<Rightarrow> params
                       | Some v \<Rightarrow> setitem params ''save'' (PBool v));
             self = self\<lparr>single_frame := None\<rparr>
         in case Call dumps self ''capture_single_frame'' (PDict params) msgs of
              None \<Rightarrow> None
            | Some (Inl (e, self')) \<Rightarrow> Some (Inl (e, self'))
            | Some (Inr (_, self')) \<Rightarrow> Some (Inr ((), self'))))"

subsection \<open>Notions of the specification\<close>

text \<open>
  The parameter object of \<open>capture_single_frame\<close> in the words of the specification: only
  the keys the caller set, in the order exposure, binning, gain, subframe, path, save,
  with \<open>roi\<close> given as \<open>subframe: [x, y, width, height]\<close>.
\<close>

definition capture_params_spec ::
  "int option \<Rightarrow> int option \<Rightarrow> int option \<Rightarrow> Subframe option \<Rightarrow> string option \<Rightarrow> bool option
     \<Rightarrow> pydict"
where
  "capture_params_spec exposure binning gain roi path save =
     (case exposure of None \<Rightarrow> [] | Some v \<Rightarrow> [(''exposure'', PInt v)])
     @ (case binning of None \<Rightarrow> [] | Some v \<Rightarrow> [(''binning'', PInt v)])
     @ (case gain of None \<Rightarrow> [] | Some v \<Rightarrow> [(''gain'', PInt v)])
     @ (case roi of None \<Rightarrow> []
        | Some (Subframe rx ry rwidth rheight) \<Rightarrow>
            [(''subframe'', PList [PInt rx, PInt ry, PInt rwidth, PInt rheight])])
     @ (case path of None \<Rightarrow> [] | Some v \<Rightarrow> [(''path'', PStr v)])
     @ (case save of None \<Rightarrow> [] | Some v \<Rightarrow> [(''save'', PBool v)])"


text \<open>
  The framing rule in the words of the specification: scan the bytes left to right from
  the accumulated bytes \<open>acc\<close>; a CR or LF closes the accumulator, which is emitted as a
  line only if it is not empty; what is left at the end is the residue. The result is
  the lines emitted and the residue.
\<close>

fun frame_spec :: "string \<Rightarrow> string \<Rightarrow> string list \<times> string" where
  "frame_spec acc [] = ([], acc)"
| "frame_spec acc (b # bs) =
     (if b = CR \<or> b = LF then
        (if acc \<noteq> [] then (acc # fst (frame_spec [] bs), snd (frame_spec [] bs))
         else frame_spec [] bs)
      else frame_spec (acc @ [b]) bs)"

text \<open>
  The lines a connection has still to deliver: those in its queue, then those that the
  framing rule finds in the bytes the socket has not yet handed over, taken as one
  string after the residue.
\<close>

definition pending_lines :: "Conn \<Rightarrow> string list" where
  "pending_lines self =
     lines self
     @ (case sock self of
          None \<Rightarrow> []
        | Some sk \<Rightarrow> fst (frame_spec (buf self) (concat (recv_data sk))))"


text \<open>
  The statistics of a list of samples in the words of the specification: the root of the
  mean squared deviation from the mean, and the largest absolute value, each 0 for no
  sample; \<open>stats_spec\<close> is the \<open>GuideStats\<close> of a list of (RA, Dec) samples, as
  \<open>_accum_get_stats\<close> leaves it (\<open>rms_tot\<close> is filled in only by \<open>GetStats\<close>).
\<close>

definition rms_spec :: "real list \<Rightarrow> real" where
  "rms_spec xs =
     (if xs = [] then 0
      else sqrt (sum_list (map (\<lambda>x. (x - sum_list xs / real (length xs))\<^sup>2) xs)
                 / real (length xs)))"

definition peak_spec :: "real list \<Rightarrow> real" where
  "peak_spec xs = (if xs = [] then 0 else Max (abs ` set xs))"

definition stats_spec :: "(real \<times> real) list \<Rightarrow> GuideStats" where
  "stats_spec samples =
     \<lparr>rms_tot = 0,
      rms_ra = rms_spec (map fst samples), rms_dec = rms_spec (map snd samples),
      peak_ra = peak_spec (map fst samples), peak_dec = peak_spec (map snd samples)\<rparr>"

text \<open>
  The events that restart the statistics, the events received since the most recent of
  them, and the samples that count among events received after a restart: the
  (\<open>RADistanceRaw\<close>, \<open>DECDistanceRaw\<close>) of the \<open>GuideStep\<close> events that come before the
  first \<open>SettleBegin\<close>.
\<close>

fun is_reset :: "event \<Rightarrow> bool" where
  "is_reset StartGuiding = True"
| "is_reset (SettleDone status err) = True"
| "is_reset ev = False"

definition since_reset :: "event list \<Rightarrow> event list" where
  "since_reset evs = rev (takeWhile (\<lambda>ev. \<not> is_reset ev) (rev evs))"

fun samples_of :: "event list \<Rightarrow> (real \<times> real) list" where
  "samples_of [] = []"
| "samples_of (GuideStep ra_raw dec_raw avg # evs) = (ra_raw, dec_raw) # samples_of evs"
| "samples_of (ev # evs) = samples_of evs"

definition counted_samples :: "event list \<Rightarrow> (real \<times> real) list" where
  "counted_samples evs = samples_of (takeWhile (\<lambda>ev. ev \<noteq> SettleBegin) evs)"

text \<open>
  An accumulator on which \<open>Stdev\<close> cannot raise: every accumulator that \<open>Reset\<close> and
  \<open>Add\<close> build is one.
\<close>

definition accum_ok :: "Accum \<Rightarrow> bool" where
  "accum_ok acc = (0 \<le> n acc \<and> 0 \<le> q acc)"


text \<open>The bytes the session has put on its socket so far.\<close>

definition sent_bytes :: "Guider \<Rightarrow> string" where
  "sent_bytes self =
     (case conn self of
        None \<Rightarrow> []
      | Some c \<Rightarrow> (case sock c of None \<Rightarrow> [] | Some sk \<Rightarrow> outbound sk))"

section \<open>The accumulator computes mean, standard deviation and peak\<close>

lemma Reset_eq: "Reset acc = \<lparr>n = 0, a = 0, q = 0, peak = 0\<rparr>"
  by (simp add: Reset_def)

lemma Add_n: "n (Add acc x) = n acc + 1"
  by (simp add: Add_def Let_def)

lemma Add_peak: "peak (Add acc x) = max (peak acc) \<bar>x\<bar>"
  by (simp add: Add_def Let_def max_def)

lemma Add_a: "a (Add acc x) = a acc + (x - a acc) / real_of_int (n acc + 1)"
  by (simp add: Add_def Let_def)

lemma Add_q: "q (Add acc x) = q acc + (x - a (Add acc x)) * (x - a acc)"
  by (simp add: Add_def Let_def)

lemma foldl_Add_n: "n (foldl Add acc xs) = n acc + int (length xs)"
  by (induction xs arbitrary: acc) (simp_all add: Add_n)

lemma foldl_Add_peak_fold:
  "peak (foldl Add acc xs) = fold max (map abs xs) (peak acc)"
  by (induction xs arbitrary: acc) (simp_all add: Add_peak max.commute)

lemma foldl_Add_peak: "peak (foldl Add acc xs) = Max (insert (peak acc) (abs ` set xs))"
proof -
  have "Max (set (peak acc # map abs xs)) = fold max (map abs xs) (peak acc)"
    by (rule Max.set_eq_fold)
  then show ?thesis by (simp add: foldl_Add_peak_fold)
qed

text \<open>One step of Welford's update keeps \<open>q = \<Sum>x\<^sup>2 - k * mean\<^sup>2\<close>.\<close>

lemma welford_step:
  fixes A B m x Q :: real
  assumes e: "B * (m + 1) = A * m + x"
  shows "Q - m * A\<^sup>2 + (x - B) * (x - A) = Q + x\<^sup>2 - (m + 1) * B\<^sup>2"
proof -
  have h1: "(m + 1) * B\<^sup>2 - B * (A * m + x) = 0"
    by (simp add: power2_eq_square e [symmetric] mult.commute mult.left_commute)
  have h2: "A * (B * (m + 1)) - A * (A * m + x) = 0"
    by (simp add: e)
  have "Q - m * A\<^sup>2 + (x - B) * (x - A) - (Q + x\<^sup>2 - (m + 1) * B\<^sup>2)
        = ((m + 1) * B\<^sup>2 - B * (A * m + x)) + (A * (B * (m + 1)) - A * (A * m + x))"
    by (simp add: algebra_simps power2_eq_square)
  then show ?thesis using h1 h2 by simp
qed

lemma welford_inv:
  "n acc = 0 \<Longrightarrow> a acc = 0 \<Longrightarrow> q acc = 0 \<Longrightarrow>
   a (foldl Add acc xs) * real (length xs) = sum_list xs \<and>
   q (foldl Add acc xs)
     = sum_list (map (\<lambda>x. x\<^sup>2) xs) - real (length xs) * (a (foldl Add acc xs))\<^sup>2"
proof (induction xs rule: rev_induct)
  case Nil
  then show ?case by simp
next
  case (snoc x xs)
  let ?b = "foldl Add acc xs"
  have nb: "n ?b = int (length xs)" using snoc.prems by (simp add: foldl_Add_n)
  have ia: "a ?b * real (length xs) = sum_list xs"
    and iq: "q ?b = sum_list (map (\<lambda>x. x\<^sup>2) xs) - real (length xs) * (a ?b)\<^sup>2"
    using snoc by simp_all
  define m where "m = real (length xs)"
  define A where "A = a ?b"
  define B where "B = a (Add ?b x)"
  have m0: "m + 1 \<noteq> 0" using m_def by (simp add: add_nonneg_eq_0_iff)
  have "B = A + (x - A) / (m + 1)"
    by (simp add: B_def Add_a nb m_def A_def add.commute)
  then have e: "B * (m + 1) = A * m + x"
    using m0 by (simp add: field_simps)
  have 1: "B * (m + 1) = sum_list xs + x"
    using e ia by (simp add: A_def m_def)
  have "q (Add ?b x) = sum_list (map (\<lambda>x. x\<^sup>2) xs) - m * A\<^sup>2 + (x - B) * (x - A)"
    by (simp add: Add_q iq A_def B_def m_def)
  then have 2: "q (Add ?b x) = sum_list (map (\<lambda>x. x\<^sup>2) xs) + x\<^sup>2 - (m + 1) * B\<^sup>2"
    using welford_step [OF e] by simp
  show ?case using 1 2 by (simp add: m_def B_def add.commute)
qed

lemma sum_sq_dev:
  fixes xs :: "real list"
  assumes "mu * real (length xs) = sum_list xs"
  shows "sum_list (map (\<lambda>x. (x - mu)\<^sup>2) xs)
         = sum_list (map (\<lambda>x. x\<^sup>2) xs) - real (length xs) * mu\<^sup>2"
proof -
  have "sum_list (map (\<lambda>x. (x - mu)\<^sup>2) xs)
        = sum_list (map (\<lambda>x. x\<^sup>2) xs) - 2 * mu * sum_list xs + real (length xs) * mu\<^sup>2"
    by (induction xs) (simp_all add: power2_eq_square algebra_simps)
  then show ?thesis using assms [symmetric] by (simp add: power2_eq_square algebra_simps)
qed

lemma sum_sq_dev_nonneg:
  fixes xs :: "real list"
  shows "0 \<le> sum_list (map (\<lambda>x. (x - mu)\<^sup>2) xs)"
  by (induction xs) simp_all

text \<open>
  Claim C2. Over exact real arithmetic, after \<open>Reset\<close> and the calls \<open>Add(x\<^sub>1)\<close>, ...,
  \<open>Add(x\<^sub>k)\<close> with \<open>k \<ge> 1\<close>, \<open>Mean()\<close> is the arithmetic mean of the samples, \<open>Stdev()\<close>
  returns (without raising) the square root of the mean squared deviation from that mean,
  and \<open>Peak()\<close> is the largest absolute value; with no sample \<open>Stdev()\<close> is 0; and right
  after \<open>Reset()\<close> all three are 0.
\<close>

theorem Accum_correct:
  fixes xs :: "real list" and acc0 :: Accum
  defines "acc \<equiv> foldl Add (Reset acc0) xs"
  defines "mean \<equiv> sum_list xs / real (length xs)"
  shows "(xs \<noteq> [] \<longrightarrow>
            Mean acc = mean
          \<and> Stdev acc = Inr (sqrt (sum_list (map (\<lambda>x. (x - mean)\<^sup>2) xs) / real (length xs)))
          \<and> Peak acc = Max (abs ` set xs))
       \<and> (xs = [] \<longrightarrow> Stdev acc = Inr 0)
       \<and> Mean (Reset acc) = 0 \<and> Stdev (Reset acc) = Inr 0 \<and> Peak (Reset acc) = 0"
proof -
  have r: "n (Reset acc0) = 0" "a (Reset acc0) = 0" "q (Reset acc0) = 0" "peak (Reset acc0) = 0"
    by (simp_all add: Reset_def)
  have nacc: "n acc = int (length xs)"
    by (simp add: acc_def foldl_Add_n r)
  have inv: "a acc * real (length xs) = sum_list xs"
    "q acc = sum_list (map (\<lambda>x. x\<^sup>2) xs) - real (length xs) * (a acc)\<^sup>2"
    using welford_inv [OF r(1) r(2) r(3), of xs] by (simp_all add: acc_def)
  have qdev: "q acc = sum_list (map (\<lambda>x. (x - a acc)\<^sup>2) xs)"
    using sum_sq_dev [OF inv(1)] inv(2) by simp
  have pk: "peak acc = Max (insert 0 (abs ` set xs))"
    by (simp add: acc_def foldl_Add_peak r)
  have nonempty: "Mean acc = mean
      \<and> Stdev acc = Inr (sqrt (sum_list (map (\<lambda>x. (x - mean)\<^sup>2) xs) / real (length xs)))
      \<and> Peak acc = Max (abs ` set xs)" if ne: "xs \<noteq> []"
  proof -
    have len: "0 < real (length xs)" using ne by simp
    have m: "a acc = mean" using inv(1) len by (simp add: mean_def field_simps)
    have n1: "n acc \<ge> 1" using ne nacc by (cases xs) simp_all
    have nn: "\<not> q acc / real_of_int (n acc) < 0"
      using sum_sq_dev_nonneg [of "a acc" xs] qdev nacc len by (simp add: not_less)
    have sd: "Stdev acc
        = Inr (sqrt (sum_list (map (\<lambda>x. (x - mean)\<^sup>2) xs) / real (length xs)))"
      using n1 nn by (simp add: Stdev_def qdev [symmetric] m [symmetric] nacc)
    have "Max (insert 0 (abs ` set xs)) = max 0 (Max (abs ` set xs))"
      using ne by simp
    moreover have "0 \<le> Max (abs ` set xs)"
      using ne by (cases xs) (auto simp add: Max_ge_iff)
    ultimately have "Peak acc = Max (abs ` set xs)" by (simp add: Peak_def pk)
    then show ?thesis using m sd by (simp add: Mean_def)
  qed
  have empty: "Stdev acc = Inr 0" if "xs = []"
    using that by (simp add: Stdev_def nacc)
  have rs: "Mean (Reset acc) = 0 \<and> Stdev (Reset acc) = Inr 0 \<and> Peak (Reset acc) = 0"
    by (simp add: Mean_def Stdev_def Peak_def Reset_def)
  show ?thesis using nonempty empty rs by blast
qed

theorem Accum_correct_witness:
  "[1, 3] \<noteq> ([] :: real list)
   \<and> Mean (foldl Add (Reset \<lparr>n = 5, a = 1, q = 2, peak = 9\<rparr>) [1, 3]) = 2
   \<and> Stdev (foldl Add (Reset \<lparr>n = 5, a = 1, q = 2, peak = 9\<rparr>) [1, 3]) = Inr 1
   \<and> Peak (foldl Add (Reset \<lparr>n = 5, a = 1, q = 2, peak = 9\<rparr>) [1, 3]) = 3"
  using Accum_correct [of "[1, 3]" "\<lparr>n = 5, a = 1, q = 2, peak = 9\<rparr>"]
  by (simp add: power2_eq_square)

section \<open>\<open>CheckSettling\<close>\<close>

text \<open>
  Claim C3, as stated, for every session state: \<open>CheckSettling\<close> raises the "not settling"
  error whenever no \<open>SettleProgress\<close> is stored. It fails on a session that is not
  connected: a new \<open>Guider\<close> has no \<open>SettleProgress\<close>, and \<open>CheckSettling\<close> raises
  \<open>NotConnectedError\<close>, because \<open>_CheckConnected\<close> runs first.
\<close>

theorem CheckSettling_not_connected_counterexample:
  "Settle (Guider_init ''localhost'' 1) = None
   \<and> CheckSettling (Guider_init ''localhost'' 1)
       = Inl (NotConnectedError, Guider_init ''localhost'' 1)
   \<and> NotConnectedError \<noteq> GuiderError (PStr ''not settling'')"
  by (simp add: CheckSettling_def CheckConnected_def Guider_init_def)

text \<open>
  Claim C3, amended. When the connection check fails, \<open>CheckSettling\<close> raises its error
  and changes nothing. On a connected session: with no stored \<open>SettleProgress\<close> it
  raises \<open>GuiderError("not settling")\<close>; with a stored one that has \<open>Done = True\<close> it
  returns a result with \<open>Done = True\<close> carrying \<open>Status\<close> and \<open>Error\<close> and clears the slot,
  so that the next call raises "not settling"; with a stored one that has
  \<open>Done = False\<close> it returns \<open>Distance\<close>, \<open>Time\<close> and \<open>SettleTime\<close> of the stored
  progress (those of a \<open>Settling\<close> event when that is what stored it) with \<open>SettlePx\<close>
  taken from \<open>settle_px\<close>, and leaves the slot in place.
\<close>

theorem CheckSettling_contract:
  "(\<forall>e. CheckConnected self = Inl e \<longrightarrow> CheckSettling self = Inl (e, self))
   \<and> (CheckConnected self = Inr () \<longrightarrow>
        (Settle self = None \<longrightarrow>
           CheckSettling self = Inl (GuiderError (PStr ''not settling''), self))
      \<and> (\<forall>st. Settle self = Some st \<and> Done st \<longrightarrow>
           CheckSettling self
             = Inr (\<lparr>Done = True, Distance = 0, SettlePx = 0, Time = 0, SettleTime = 0,
                     Status = Status st, Error = Error st\<rparr>, self\<lparr>Settle := None\<rparr>)
           \<and> CheckSettling (self\<lparr>Settle := None\<rparr>)
             = Inl (GuiderError (PStr ''not settling''), self\<lparr>Settle := None\<rparr>))
      \<and> (\<forall>st. Settle self = Some st \<and> \<not> Done st \<longrightarrow>
           CheckSettling self
             = Inr (\<lparr>Done = False, Distance = Distance st, SettlePx = settle_px self,
                     Time = Time st, SettleTime = SettleTime st, Status = 0, Error = None\<rparr>,
                    self))
      \<and> (\<forall>dst tm stm self'. handle_event self (Settling dst tm stm) = Inr self' \<longrightarrow>
           CheckSettling self'
             = Inr (\<lparr>Done = False, Distance = dst, SettlePx = settle_px self,
                     Time = tm, SettleTime = stm, Status = 0, Error = None\<rparr>, self')))"
  by (auto simp add: CheckSettling_def CheckConnected_def SettleProgress_init_def Let_def
      split: option.splits sum.splits if_splits)

theorem CheckSettling_contract_witness:
  "let g = connected_to (Guider_init ''localhost'' 1)
             \<lparr>outbound = [], send_caps = [], recv_data = []\<rparr>;
       finished = \<lparr>Done = True, Distance = 0, SettlePx = 0, Time = 0, SettleTime = 0,
                   Status = 1, Error = Some ''timed-out waiting for guider to settle''\<rparr>;
       pending = \<lparr>Done = False, Distance = 3, SettlePx = 0, Time = 1, SettleTime = 10,
                  Status = 0, Error = None\<rparr>
   in CheckConnected g = Inr ()
      \<and> CheckConnected (Guider_init ''localhost'' 1) = Inl NotConnectedError
      \<and> CheckSettling (Guider_init ''localhost'' 1)
          = Inl (NotConnectedError, Guider_init ''localhost'' 1)
      \<and> CheckSettling g = Inl (GuiderError (PStr ''not settling''), g)
      \<and> CheckSettling (g\<lparr>settle_px := 2, Settle := Some finished\<rparr>)
          = Inr (finished, g\<lparr>settle_px := 2, Settle := None\<rparr>)
      \<and> CheckSettling (g\<lparr>settle_px := 2, Settle := None\<rparr>)
          = Inl (GuiderError (PStr ''not settling''), g\<lparr>settle_px := 2, Settle := None\<rparr>)
      \<and> CheckSettling (g\<lparr>settle_px := 2, Settle := Some pending\<rparr>)
          = Inr (pending\<lparr>SettlePx := 2\<rparr>, g\<lparr>settle_px := 2, Settle := Some pending\<rparr>)"
proof -
  define g where "g = connected_to (Guider_init ''localhost'' 1)
             \<lparr>outbound = [], send_caps = [], recv_data = []\<rparr>"
  define finished where "finished = \<lparr>Done = True, Distance = 0, SettlePx = 0, Time = 0,
      SettleTime = 0, Status = 1, Error = Some ''timed-out waiting for guider to settle''\<rparr>"
  define pending where "pending = \<lparr>Done = False, Distance = 3, SettlePx = 0, Time = 1,
      SettleTime = 10, Status = 0, Error = None\<rparr>"
  have c: "CheckConnected g = Inr ()"
    by (simp add: g_def connected_to_def CheckConnected_def IsConnected_def Conn_init_def)
  have c2: "CheckConnected (g\<lparr>settle_px := 2, Settle := s\<rparr>) = Inr ()" for s
    using c by (simp add: CheckConnected_def)
  have nc: "CheckConnected (Guider_init ''localhost'' 1) = Inl NotConnectedError"
    by (simp add: CheckConnected_def Guider_init_def)
  have s0: "Settle g = None"
    by (simp add: g_def connected_to_def Guider_init_def)
  from CheckSettling_contract [of "Guider_init ''localhost'' 1"] nc
  have 1: "CheckSettling (Guider_init ''localhost'' 1)
          = Inl (NotConnectedError, Guider_init ''localhost'' 1)"
    by simp
  from CheckSettling_contract [of g] c s0
  have 2: "CheckSettling g = Inl (GuiderError (PStr ''not settling''), g)"
    by simp
  from CheckSettling_contract [of "g\<lparr>settle_px := 2, Settle := Some finished\<rparr>"] c2
  have 3: "CheckSettling (g\<lparr>settle_px := 2, Settle := Some finished\<rparr>)
          = Inr (finished, g\<lparr>settle_px := 2, Settle := None\<rparr>)
     \<and> CheckSettling (g\<lparr>settle_px := 2, Settle := None\<rparr>)
          = Inl (GuiderError (PStr ''not settling''), g\<lparr>settle_px := 2, Settle := None\<rparr>)"
    by (simp add: finished_def)
  from CheckSettling_contract [of "g\<lparr>settle_px := 2, Settle := Some pending\<rparr>"] c2
  have 4: "CheckSettling (g\<lparr>settle_px := 2, Settle := Some pending\<rparr>)
          = Inr (pending\<lparr>SettlePx := 2\<rparr>, g\<lparr>settle_px := 2, Settle := Some pending\<rparr>)"
    by (simp add: pending_def)
  show ?thesis
    unfolding Let_def g_def [symmetric] finished_def [symmetric] pending_def [symmetric]
    using c nc 1 2 3 4 by simp
qed

lemma handle_event_SettleDone:
  "handle_event self (SettleDone status err)
   = Inr (self\<lparr>accum_active := True, accum_ra := Reset (accum_ra self),
              accum_dec := Reset (accum_dec self),
              Settle := Some \<lparr>Done = True, Distance = 0, SettlePx = 0, Time = 0,
                              SettleTime = 0, Status = status, Error = err\<rparr>,
              Stats := GuideStats_init\<rparr>)"
  by (simp add: accum_get_stats_def Stdev_def Peak_def Reset_def GuideStats_init_def
      SettleProgress_init_def)

text \<open>
  Claim C10. Whenever \<open>CheckSettling\<close> returns a result with \<open>Done = True\<close>, its
  \<open>Distance\<close>, \<open>SettlePx\<close>, \<open>Time\<close> and \<open>SettleTime\<close> are 0, and \<open>Status\<close> and \<open>Error\<close> are
  those of the stored progress; after a \<open>SettleDone\<close> event these are the event's
  \<open>Status\<close> and \<open>Error\<close>, whatever \<open>Settling\<close> events came before.
\<close>

theorem CheckSettling_done_fields:
  "(\<forall>r self'. CheckSettling self = Inr (r, self') \<and> Done r \<longrightarrow>
        Distance r = 0 \<and> SettlePx r = 0 \<and> Time r = 0 \<and> SettleTime r = 0
      \<and> (\<exists>st. Settle self = Some st \<and> Status r = Status st \<and> Error r = Error st))
   \<and> (\<forall>status err self1 r self2.
        handle_event self (SettleDone status err) = Inr self1
        \<and> CheckSettling self1 = Inr (r, self2) \<longrightarrow>
        r = \<lparr>Done = True, Distance = 0, SettlePx = 0, Time = 0, SettleTime = 0,
             Status = status, Error = err\<rparr>)"
proof -
  have a: "Distance r = 0 \<and> SettlePx r = 0 \<and> Time r = 0 \<and> SettleTime r = 0
      \<and> (\<exists>st. Settle self = Some st \<and> Status r = Status st \<and> Error r = Error st)"
    if "CheckSettling self = Inr (r, self')" "Done r" for r self'
    using that
    by (auto simp add: CheckSettling_def SettleProgress_init_def Let_def
        split: option.splits sum.splits if_splits)
  have b: "r = \<lparr>Done = True, Distance = 0, SettlePx = 0, Time = 0, SettleTime = 0,
             Status = status, Error = err\<rparr>"
    if "handle_event self (SettleDone status err) = Inr self1"
      "CheckSettling self1 = Inr (r, self2)" for status err self1 r self2
    using that unfolding handle_event_SettleDone
    by (auto simp add: CheckSettling_def SettleProgress_init_def Let_def
        split: option.splits sum.splits if_splits)
  show ?thesis using a b by blast
qed

theorem CheckSettling_done_fields_witness:
  "let g = (connected_to (Guider_init ''localhost'' 1)
              \<lparr>outbound = [], send_caps = [], recv_data = []\<rparr>)\<lparr>settle_px := 2\<rparr>
   in \<exists>g1 g2 r.
        worker g [Event (Settling 3 1 10), Event (SettleDone 1 (Some ''timed-out''))] = Inr g1
      \<and> CheckSettling g1 = Inr (r, g2) \<and> Done r
      \<and> Distance r = 0 \<and> SettlePx r = 0 \<and> Time r = 0 \<and> SettleTime r = 0
      \<and> Status r = 1 \<and> Error r = Some ''timed-out''"
proof -
  define g where "g = (connected_to (Guider_init ''localhost'' 1)
              \<lparr>outbound = [], send_caps = [], recv_data = []\<rparr>)\<lparr>settle_px := 2\<rparr>"
  define r where "r = \<lparr>Done = True, Distance = 0, SettlePx = 0, Time = 0, SettleTime = 0,
      Status = 1, Error = Some ''timed-out''\<rparr>"
  have "\<exists>g1. worker g [Event (Settling 3 1 10),
      Event (SettleDone 1 (Some ''timed-out''))] = Inr g1
      \<and> Settle g1 = Some r \<and> CheckConnected g1 = Inr ()"
    by (simp add: g_def r_def connected_to_def Guider_init_def worker_step_def Let_def
        accum_get_stats_def Stdev_def Peak_def Reset_def Accum_init_def GuideStats_init_def
        SettleProgress_init_def CheckConnected_def IsConnected_def Conn_init_def)
  then obtain g1 where w: "worker g [Event (Settling 3 1 10),
      Event (SettleDone 1 (Some ''timed-out''))] = Inr g1"
    and s1: "Settle g1 = Some r" and c1: "CheckConnected g1 = Inr ()"
    by blast
  have cs: "CheckSettling g1 = Inr (r, g1\<lparr>Settle := None\<rparr>)"
    using s1 c1 by (simp add: CheckSettling_def SettleProgress_init_def r_def)
  have d: "Done r" by (simp add: r_def)
  from CheckSettling_done_fields [of g1] cs d s1
  have "Distance r = 0 \<and> SettlePx r = 0 \<and> Time r = 0 \<and> SettleTime r = 0
      \<and> Status r = 1 \<and> Error r = Some ''timed-out''"
    by (auto simp add: r_def)
  then show ?thesis
    unfolding Let_def g_def [symmetric] using w cs d by blast
qed

section \<open>Requests: \<open>_make_jsonrpc\<close>\<close>

lemma nat_repr_digit: "k < 10 \<Longrightarrow> nat_repr k = [''0123456789'' ! k]"
  by (subst nat_repr.simps) simp

text \<open>
  Claim C6. \<open>_make_jsonrpc(m, p)\<close> serialises an object whose first two members are
  \<open>method: m\<close> and \<open>id: 1\<close>; it has no \<open>params\<close> member when \<open>p\<close> is \<open>None\<close>, the member
  \<open>params: p\<close> when \<open>p\<close> is a list or a dict, and \<open>params: [p]\<close> for any other value. This
  holds whatever the serialiser is.
\<close>

theorem make_jsonrpc_request:
  "make_jsonrpc dumps m p
   = dumps (PDict ([(''method'', PStr m), (''id'', PInt 1)]
                   @ (if p = PNone then []
                      else if (\<exists>vs. p = PList vs) \<or> (\<exists>kvs. p = PDict kvs) then [(''params'', p)]
                      else [(''params'', PList [p])])))"
  by (cases p) (simp_all add: make_jsonrpc_def)

theorem make_jsonrpc_request_witness:
  \<open>make_jsonrpc json_dumps ''get_exposure'' PNone = ''{"method":"get_exposure","id":1}''
   \<and> make_jsonrpc json_dumps ''set_profile'' (PInt 7)
       = ''{"method":"set_profile","id":1,"params":[7]}''
   \<and> make_jsonrpc json_dumps ''m'' (PList [PInt 1, PInt 2])
       = ''{"method":"m","id":1,"params":[1,2]}''
   \<and> make_jsonrpc json_dumps ''m'' (PDict [(''a'', PInt 1)])
       = ''{"method":"m","id":1,"params":{"a":1}}''
   \<and> make_jsonrpc json_dumps ''set_paused'' (PBool True)
       = ''{"method":"set_paused","id":1,"params":[true]}''\<close>
  using make_jsonrpc_request [of json_dumps "''get_exposure''" PNone]
    make_jsonrpc_request [of json_dumps "''set_profile''" "PInt 7"]
    make_jsonrpc_request [of json_dumps "''m''" "PList [PInt 1, PInt 2]"]
    make_jsonrpc_request [of json_dumps "''m''" "PDict [(''a'', PInt 1)]"]
    make_jsonrpc_request [of json_dumps "''set_paused''" "PBool True"]
  by (simp add: str_repr_def int_repr_def nat_repr_digit)

section \<open>\<open>WriteLine\<close> and the request line\<close>

lemma write_loop_Inr:
  "write_loop sk b t = Inr sk' \<Longrightarrow> outbound sk' = outbound sk @ drop t b"
proof (induction sk b t rule: write_loop.induct)
  case (1 sk b totsent)
  show ?case
  proof (cases "totsent < length b")
    case False
    with "1.prems" show ?thesis by (simp add: write_loop.simps)
  next
    case True
    obtain k sk1 where s: "send sk (drop totsent b) = (k, sk1)"
      by (cases "send sk (drop totsent b)")
    from "1.prems" True s have k0: "k \<noteq> 0" and rec: "write_loop sk1 b (totsent + k) = Inr sk'"
      by (auto simp add: write_loop.simps [of sk b totsent] split: if_splits)
    from s k0 have o: "outbound sk1 = outbound sk @ take k (drop totsent b)"
      by (auto simp add: send_def Let_def split: list.splits)
    have "outbound sk' = outbound sk1 @ drop (totsent + k) b"
      using "1.IH" [OF True s [symmetric] k0 rec] .
    then show ?thesis
      using o by (simp add: add.commute [of totsent k] drop_drop [symmetric] del: drop_drop)
  qed
qed

lemma write_loop_Inl:
  "write_loop sk b t = Inl (e, sk') \<Longrightarrow>
   e = RuntimeError ''socket connection broken''
   \<and> (\<exists>k. t + k < length b \<and> outbound sk' = outbound sk @ take k (drop t b))"
proof (induction sk b t rule: write_loop.induct)
  case (1 sk b totsent)
  show ?case
  proof (cases "totsent < length b")
    case False
    with "1.prems" show ?thesis by (simp add: write_loop.simps)
  next
    case True
    obtain k sk1 where s: "send sk (drop totsent b) = (k, sk1)"
      by (cases "send sk (drop totsent b)")
    show ?thesis
    proof (cases "k = 0")
      case True
      with s have "outbound sk1 = outbound sk"
        by (auto simp add: send_def Let_def split: list.splits)
      moreover from "1.prems" \<open>totsent < length b\<close> s True
      have "e = RuntimeError ''socket connection broken''" "sk' = sk1"
        by (auto simp add: write_loop.simps [of sk b totsent])
      ultimately show ?thesis using \<open>totsent < length b\<close>
        by (intro conjI exI [of _ 0]) simp_all
    next
      case False
      from "1.prems" True s False have rec: "write_loop sk1 b (totsent + k) = Inl (e, sk')"
        by (auto simp add: write_loop.simps [of sk b totsent])
      from s False have o: "outbound sk1 = outbound sk @ take k (drop totsent b)"
        and kl: "k \<le> length b - totsent"
        by (auto simp add: send_def Let_def split: list.splits)
      from "1.IH" [OF True s [symmetric] False rec]
      obtain j where e: "e = RuntimeError ''socket connection broken''"
        and j: "totsent + k + j < length b"
        and o': "outbound sk' = outbound sk1 @ take j (drop (totsent + k) b)"
        by blast
      have "take (k + j) (drop totsent b)
            = take k (drop totsent b) @ take j (drop (totsent + k) b)"
        by (simp only: take_add drop_drop add.commute [of k totsent])
      then have "outbound sk' = outbound sk @ take (k + j) (drop totsent b)"
        using o o' by simp
      then show ?thesis using e j by (intro conjI exI [of _ "k + j"]) simp_all
    qed
  qed
qed

lemma write_loop_succeeds:
  "length b - t \<le> length (send_caps sk) \<Longrightarrow>
   \<forall>c\<in>set (take (length b - t) (send_caps sk)). 0 < c \<Longrightarrow>
   \<exists>sk'. write_loop sk b t = Inr sk'"
proof (induction sk b t rule: write_loop.induct)
  case (1 sk b totsent)
  show ?case
  proof (cases "totsent < length b")
    case False
    then show ?thesis by (simp add: write_loop.simps)
  next
    case True
    with "1.prems"(1) obtain c cs where caps: "send_caps sk = c # cs"
      by (cases "send_caps sk") auto
    from "1.prems"(2) caps True have c0: "0 < c"
      by (cases "length b - totsent") auto
    define k where "k = min c (length b - totsent)"
    define sk1 where "sk1 = sk\<lparr>outbound := outbound sk @ take k (drop totsent b),
                               send_caps := cs\<rparr>"
    have s: "send sk (drop totsent b) = (k, sk1)"
      by (simp add: send_def caps k_def sk1_def Let_def)
    have k0: "k \<noteq> 0" using c0 True by (simp add: k_def)
    have l: "length b - (totsent + k) \<le> length (send_caps sk1)"
      using "1.prems"(1) caps k0 by (simp add: sk1_def)
    have "set (take (length b - (totsent + k)) cs) \<subseteq> set (take (length b - totsent) (c # cs))"
    proof -
      obtain d where d: "length b - totsent = Suc d" using True by (cases "length b - totsent") auto
      have "length b - (totsent + k) \<le> d" using d k0 by simp
      then have "set (take (length b - (totsent + k)) cs) \<subseteq> set (take d cs)"
        by (rule set_take_subset_set_take)
      then show ?thesis using d by auto
    qed
    then have p: "\<forall>c\<in>set (take (length b - (totsent + k)) (send_caps sk1)). 0 < c"
      using "1.prems"(2) caps by (auto simp add: sk1_def)
    from "1.IH" [OF True s [symmetric] k0 l p]
    obtain sk' where "write_loop sk1 b (totsent + k) = Inr sk'" by blast
    then show ?thesis using True s k0 by (simp add: write_loop.simps [of sk b totsent])
  qed
qed

lemma handle_event_conn: "handle_event self ev = Inr self' \<Longrightarrow> conn self' = conn self"
  by (cases ev) (auto simp add: Let_def split: if_splits sum.splits)

lemma worker_step_conn: "worker_step self m = Inr self' \<Longrightarrow> conn self' = conn self"
  by (cases m) (auto simp add: worker_step_def dest: handle_event_conn)

lemma await_response_conn:
  "await_response self msgs = Some (r, self') \<Longrightarrow> conn self' = conn self"
proof (induction msgs arbitrary: self)
  case Nil
  then show ?case by (auto split: option.splits if_splits)
next
  case (Cons m ms)
  then show ?case
    by (auto split: option.splits if_splits sum.splits dest: worker_step_conn)
qed

text \<open>What a call that returns has put on the socket: the whole request line.\<close>

lemma Call_returns_sent:
  assumes "Call dumps self m p msgs = Some (Inr (r, self'))"
  shows "sent_bytes self' = sent_bytes self @ make_jsonrpc dumps m p @ [CR, LF]"
proof -
  from assms obtain c c' resp self1 where c: "conn self = Some c"
    and w: "WriteLine c (make_jsonrpc dumps m p @ [CR, LF]) = Inr c'"
    and aw: "await_response (self\<lparr>conn := Some c'\<rparr>) msgs = Some (resp, self1)"
    and s': "self' = self1\<lparr>response := None\<rparr>"
    by (auto simp add: Call_def Let_def split: option.splits sum.splits prod.splits if_splits)
  from w obtain sk sk' where sk: "sock c = Some sk" and sk': "sock c' = Some sk'"
    and wl: "write_loop sk (make_jsonrpc dumps m p @ [CR, LF]) 0 = Inr sk'"
    by (auto simp add: WriteLine_def split: option.splits sum.splits prod.splits)
  from await_response_conn [OF aw] have "conn self1 = Some c'" by simp
  then have "sent_bytes self' = outbound sk'" by (simp add: sent_bytes_def s' sk')
  moreover have "sent_bytes self = outbound sk" by (simp add: sent_bytes_def c sk)
  ultimately show ?thesis using write_loop_Inr [OF wl] by simp
qed

text \<open>
  Claim C7, as stated: \<open>WriteLine(s)\<close> writes the bytes of \<open>s\<close> followed by CR LF. It
  fails: on a socket that takes all the bytes at once, \<open>WriteLine("ab")\<close> writes the
  two bytes \<open>ab\<close> and no terminator.
\<close>

theorem WriteLine_no_terminator_counterexample:
  "WriteLine (Conn_init\<lparr>sock := Some \<lparr>outbound = [], send_caps = [4096], recv_data = []\<rparr>\<rparr>)
       ''ab''
   = Inr (Conn_init\<lparr>sock := Some \<lparr>outbound = ''ab'', send_caps = [], recv_data = []\<rparr>\<rparr>)
   \<and> ''ab'' \<noteq> ''ab'' @ [CR, LF]"
  by (simp add: WriteLine_def Conn_init_def write_loop.simps send_def)

text \<open>
  Claim C7, amended. \<open>WriteLine(s)\<close> writes the bytes of \<open>s\<close> and adds no terminator. It
  loops over partial sends: when it returns, exactly the bytes of \<open>s\<close> have been
  appended to what the socket has taken, and it does return when each of the coming
  \<open>length s\<close> calls of \<open>send\<close> can take at least one byte. When it raises, either no socket
  is open (the assertion) or a \<open>send\<close> returned 0, and then a proper prefix of \<open>s\<close> has
  been written. The CR LF comes from \<open>Call\<close>, which passes the serialised request
  followed by CR LF to \<open>WriteLine\<close>: a call that returns has written exactly that line.
\<close>

theorem WriteLine_writes:
  "(\<forall>c'. WriteLine c s = Inr c' \<longrightarrow>
        (\<exists>sk sk'. sock c = Some sk \<and> sock c' = Some sk' \<and> outbound sk' = outbound sk @ s))
   \<and> (\<forall>sk. sock c = Some sk \<and> length s \<le> length (send_caps sk)
           \<and> (\<forall>k\<in>set (take (length s) (send_caps sk)). 0 < k) \<longrightarrow>
        (\<exists>c'. WriteLine c s = Inr c'))
   \<and> (\<forall>e c'. WriteLine c s = Inl (e, c') \<longrightarrow>
        (sock c = None \<and> e = AssertionError \<and> c' = c)
        \<or> (\<exists>sk sk' k. sock c = Some sk \<and> sock c' = Some sk'
              \<and> e = RuntimeError ''socket connection broken''
              \<and> k < length s \<and> outbound sk' = outbound sk @ take k s))
   \<and> (\<forall>dumps self m p msgs r self'. Call dumps self m p msgs = Some (Inr (r, self')) \<longrightarrow>
        sent_bytes self' = sent_bytes self @ make_jsonrpc dumps m p @ [CR, LF])"
proof -
  have a: "\<exists>sk sk'. sock c = Some sk \<and> sock c' = Some sk' \<and> outbound sk' = outbound sk @ s"
    if "WriteLine c s = Inr c'" for c'
    using that
    by (auto simp add: WriteLine_def split: option.splits sum.splits prod.splits
        dest!: write_loop_Inr)
  have b: "\<exists>c'. WriteLine c s = Inr c'"
    if "sock c = Some sk" "length s \<le> length (send_caps sk)"
      "\<forall>k\<in>set (take (length s) (send_caps sk)). 0 < k" for sk
  proof -
    from write_loop_succeeds [of s 0 sk] that(2,3)
    obtain sk' where "write_loop sk s 0 = Inr sk'" by auto
    then show ?thesis using that(1) by (simp add: WriteLine_def)
  qed
  have d: "(sock c = None \<and> e = AssertionError \<and> c' = c)
        \<or> (\<exists>sk sk' k. sock c = Some sk \<and> sock c' = Some sk'
              \<and> e = RuntimeError ''socket connection broken''
              \<and> k < length s \<and> outbound sk' = outbound sk @ take k s)"
    if "WriteLine c s = Inl (e, c')" for e c'
    using that
    by (auto simp add: WriteLine_def split: option.splits sum.splits prod.splits
        dest!: write_loop_Inl)
  show ?thesis using a b d Call_returns_sent by blast
qed

theorem WriteLine_writes_witness:
  "let sk = \<lparr>outbound = ''x'', send_caps = [2, 1, 5, 7], recv_data = []\<rparr>;
       c = Conn_init\<lparr>sock := Some sk\<rparr>
   in length ''abcd'' \<le> length (send_caps sk)
      \<and> list_all (\<lambda>k. 0 < k) (take (length ''abcd'') (send_caps sk))
      \<and> (\<exists>c' sk'. WriteLine c ''abcd'' = Inr c' \<and> sock c' = Some sk'
            \<and> outbound sk' = ''xabcd'')
      \<and> WriteLine (Conn_init\<lparr>sock := Some \<lparr>outbound = ''x'', send_caps = [2, 0],
                                            recv_data = []\<rparr>\<rparr>) ''abcd''
          = Inl (RuntimeError ''socket connection broken'',
                 Conn_init\<lparr>sock := Some \<lparr>outbound = ''xab'', send_caps = [],
                                         recv_data = []\<rparr>\<rparr>)"
proof -
  define sk where "sk = \<lparr>outbound = ''x'', send_caps = [2, 1, 5, 7], recv_data = []\<rparr>"
  define c where "c = Conn_init\<lparr>sock := Some sk\<rparr>"
  have h: "sock c = Some sk" "length ''abcd'' \<le> length (send_caps sk)"
    "\<forall>k\<in>set (take (length ''abcd'') (send_caps sk)). 0 < k"
    by (simp_all add: c_def sk_def)
  from WriteLine_writes [of c "''abcd''"] h
  obtain c' where w: "WriteLine c ''abcd'' = Inr c'" by blast
  from WriteLine_writes [of c "''abcd''"] w h(1)
  obtain sk' where "sock c' = Some sk'" "outbound sk' = outbound sk @ ''abcd''" by auto
  then have 1: "\<exists>c' sk'. WriteLine c ''abcd'' = Inr c' \<and> sock c' = Some sk'
            \<and> outbound sk' = ''xabcd''"
    using w by (auto simp add: sk_def)
  have 2: "WriteLine (Conn_init\<lparr>sock := Some \<lparr>outbound = ''x'', send_caps = [2, 0],
                                            recv_data = []\<rparr>\<rparr>) ''abcd''
          = Inl (RuntimeError ''socket connection broken'',
                 Conn_init\<lparr>sock := Some \<lparr>outbound = ''xab'', send_caps = [],
                                         recv_data = []\<rparr>\<rparr>)"
    by (simp add: WriteLine_def Conn_init_def write_loop.simps send_def)
  show ?thesis
    unfolding Let_def sk_def [symmetric] c_def [symmetric]
    using h 1 2 by (simp add: list_all_iff)
qed

section \<open>\<open>CaptureSingleFrame\<close>\<close>

lemma setitem_fresh: "k \<notin> fst ` set d \<Longrightarrow> setitem d k v = d @ [(k, v)]"
  by (induction d) auto

lemma capture_params_built:
  "(let params = [];
        params = (case exposure of None \<Rightarrow> params
                  | Some v \<Rightarrow> setitem params ''exposure'' (PInt v));
        params = (case binning of None \<Rightarrow> params
                  | Some v \<Rightarrow> setitem params ''binning'' (PInt v));
        params = (case gain of None \<Rightarrow> params
                  | Some v \<Rightarrow> setitem params ''gain'' (PInt v));
        params = (case roi of None \<Rightarrow> params
                  | Some (Subframe rx ry rwidth rheight) \<Rightarrow>
                      setitem params ''subframe''
                        (PList [PInt rx, PInt ry, PInt rwidth, PInt rheight]));
        params = (case path of None \<Rightarrow> params
                  | Some v \<Rightarrow> setitem params ''path'' (PStr v));
        params = (case save of None \<Rightarrow> params
                  | Some v \<Rightarrow> setitem params ''save'' (PBool v))
    in f params)
   = f (capture_params_spec exposure binning gain roi path save)"
  unfolding Let_def capture_params_spec_def
  by (cases exposure; cases binning; cases gain; cases roi; cases path; cases save)
     (simp_all split: Subframe.splits)

text \<open>
  Claim C9. When \<open>path\<close> is given and \<open>save\<close> is \<open>False\<close>, \<open>CaptureSingleFrame\<close> raises
  \<open>ValueError\<close> and the session is left as it was: nothing is sent and \<open>single_frame\<close>
  is not cleared. Otherwise it clears \<open>single_frame\<close> and makes the call
  \<open>capture_single_frame\<close> with the parameter object that holds only the keys the caller
  set (\<open>roi\<close> as \<open>subframe: [x, y, width, height]\<close>): its outcome is the outcome of that
  call, and when it returns the request line with these parameters is what has been
  written to the socket.
\<close>

theorem CaptureSingleFrame_contract:
  fixes dumps self exposure binning gain roi path save msgs
  defines "res \<equiv> CaptureSingleFrame dumps self exposure binning gain roi path save msgs"
  defines "call \<equiv> Call dumps (self\<lparr>single_frame := None\<rparr>) ''capture_single_frame''
                      (PDict (capture_params_spec exposure binning gain roi path save)) msgs"
  shows "(path \<noteq> None \<and> save = Some False \<longrightarrow>
            res = Some (Inl (ValueError
              ''invalid arguments: when save is False, the path argument should be omitted'',
              self)))
       \<and> (\<not> (path \<noteq> None \<and> save = Some False) \<longrightarrow>
            (call = None \<longrightarrow> res = None)
          \<and> (\<forall>e self'. call = Some (Inl (e, self')) \<longrightarrow> res = Some (Inl (e, self')))
          \<and> (\<forall>r self'. call = Some (Inr (r, self')) \<longrightarrow>
                res = Some (Inr ((), self'))
              \<and> sent_bytes self'
                  = sent_bytes self
                    @ make_jsonrpc dumps ''capture_single_frame''
                        (PDict (capture_params_spec exposure binning gain roi path save))
                    @ [CR, LF]))"
proof -
  have bad: "res = Some (Inl (ValueError
              ''invalid arguments: when save is False, the path argument should be omitted'',
              self))" if "path \<noteq> None \<and> save = Some False"
    using that by (simp add: res_def CaptureSingleFrame_def)
  have ok: "res = (case call of
                     None \<Rightarrow> None
                   | Some (Inl (e, self')) \<Rightarrow> Some (Inl (e, self'))
                   | Some (Inr (_, self')) \<Rightarrow> Some (Inr ((), self')))"
    if "\<not> (path \<noteq> None \<and> save = Some False)"
    unfolding res_def call_def CaptureSingleFrame_def Let_def
    by (simp only: that if_False capture_params_built [where f = "\<lambda>x. x", unfolded Let_def])
  have sent: "sent_bytes self'
                  = sent_bytes self
                    @ make_jsonrpc dumps ''capture_single_frame''
                        (PDict (capture_params_spec exposure binning gain roi path save))
                    @ [CR, LF]" if "call = Some (Inr (r, self'))" for r self'
    using Call_returns_sent [OF that [unfolded call_def]] by (simp add: sent_bytes_def)
  show ?thesis using bad ok sent by (auto split: option.splits sum.splits)
qed

theorem CaptureSingleFrame_contract_witness:
  \<open>let g = (connected_to (Guider_init ''localhost'' 1)
              \<lparr>outbound = [], send_caps = [4096], recv_data = []\<rparr>)
             \<lparr>single_frame := Some (SingleFrameResult True None (Some ''/old.fits''))\<rparr>;
       reply = [(''jsonrpc'', PStr ''2.0''), (''result'', PInt 0), (''id'', PInt 1)]
   in CaptureSingleFrame json_dumps g None None None None (Some ''/x'') (Some False)
          [Response reply]
        = Some (Inl (ValueError
            ''invalid arguments: when save is False, the path argument should be omitted'',
            g))
      \<and> sent_bytes g = []
      \<and> (\<exists>g'. CaptureSingleFrame json_dumps g (Some 1000) None None
                  (Some (Subframe 10 20 100 80)) None (Some True) [Response reply]
                = Some (Inr ((), g'))
              \<and> single_frame g' = None
              \<and> sent_bytes g'
                  = ''{"method":"capture_single_frame","id":1,"params":''
                    @ ''{"exposure":1000,"subframe":[10,20,100,80],"save":true}}''
                    @ [CR, LF])\<close>
proof -
  define g where "g = (connected_to (Guider_init ''localhost'' 1)
              \<lparr>outbound = [], send_caps = [4096], recv_data = []\<rparr>)
             \<lparr>single_frame := Some (SingleFrameResult True None (Some ''/old.fits''))\<rparr>"
  define reply where
    "reply = [(''jsonrpc'', PStr ''2.0''), (''result'', PInt 0), (''id'', PInt 1)]"
  have 1: "CaptureSingleFrame json_dumps g None None None None (Some ''/x'') (Some False)
          [Response reply]
        = Some (Inl (ValueError
            ''invalid arguments: when save is False, the path argument should be omitted'',
            g))"
    using CaptureSingleFrame_contract
      [of "Some ''/x''" "Some False" json_dumps g None None None None "[Response reply]"]
    by simp
  have 2: "sent_bytes g = []"
    by (simp add: g_def sent_bytes_def connected_to_def Conn_init_def)
  have "\<exists>r g'. Call json_dumps (g\<lparr>single_frame := None\<rparr>) ''capture_single_frame''
          (PDict (capture_params_spec (Some 1000) None None (Some (Subframe 10 20 100 80))
             None (Some True))) [Response reply] = Some (Inr (r, g'))
        \<and> single_frame g' = None"
    by (simp add: Call_def WriteLine_def write_loop.simps send_def make_jsonrpc_def g_def
        reply_def connected_to_def Conn_init_def Guider_init_def worker_step_def
        no_response_def failed_def contains_def capture_params_spec_def str_repr_def
        int_repr_def nat_repr.simps Let_def)
  then obtain r g' where c: "Call json_dumps (g\<lparr>single_frame := None\<rparr>)
          ''capture_single_frame''
          (PDict (capture_params_spec (Some 1000) None None (Some (Subframe 10 20 100 80))
             None (Some True))) [Response reply] = Some (Inr (r, g'))"
    and sf: "single_frame g' = None"
    by blast
  from CaptureSingleFrame_contract
      [of None "Some True" json_dumps g "Some 1000" None None "Some (Subframe 10 20 100 80)"
        "[Response reply]"] c
  have "CaptureSingleFrame json_dumps g (Some 1000) None None
                  (Some (Subframe 10 20 100 80)) None (Some True) [Response reply]
                = Some (Inr ((), g'))
      \<and> sent_bytes g'
          = sent_bytes g
            @ make_jsonrpc json_dumps ''capture_single_frame''
                (PDict (capture_params_spec (Some 1000) None None
                   (Some (Subframe 10 20 100 80)) None (Some True)))
            @ [CR, LF]"
    by simp
  then have 3: \<open>\<exists>g'. CaptureSingleFrame json_dumps g (Some 1000) None None
                  (Some (Subframe 10 20 100 80)) None (Some True) [Response reply]
                = Some (Inr ((), g'))
              \<and> single_frame g' = None
              \<and> sent_bytes g'
                  = ''{"method":"capture_single_frame","id":1,"params":''
                    @ ''{"exposure":1000,"subframe":[10,20,100,80],"save":true}}''
                    @ [CR, LF]\<close>
    using sf 2
    by (simp add: make_jsonrpc_def capture_params_spec_def str_repr_def int_repr_def
        nat_repr.simps)
  show ?thesis
    unfolding Let_def g_def [symmetric] reply_def [symmetric]
    using 1 2 3 by blast
qed

section \<open>\<open>Guide\<close> and \<open>Dither\<close>\<close>

lemma settling_iff:
  "(case Settle self of None \<Rightarrow> False | Some t \<Rightarrow> \<not> Done t)
   \<longleftrightarrow> (\<exists>t. Settle self = Some t \<and> \<not> Done t)"
  by (cases "Settle self") simp_all

lemma frac_repr_17_0: "frac_repr 17 0 = ''0''"
  by (simp add: eval_nat_numeral)

text \<open>
  Claim C4, as stated: when the RPC fails, the \<open>Settle\<close> slot returns to its value from
  before the call. It fails when the slot held a finished \<open>SettleProgress\<close> that had not
  been read: the server answers \<open>guide\<close> with an error, \<open>Guide\<close> raises it, and the slot is
  \<open>None\<close>, not the finished progress of before.
\<close>

theorem Guide_rollback_counterexample:
  \<open>Guide json_dumps
     ((connected_to (Guider_init ''localhost'' 1)
         \<lparr>outbound = [], send_caps = [4096], recv_data = []\<rparr>)
      \<lparr>Settle := Some \<lparr>Done = True, Distance = 0, SettlePx = 0, Time = 0, SettleTime = 0,
                        Status = 0, Error = None\<rparr>\<rparr>)
     2 10 100
     [Response [(''jsonrpc'', PStr ''2.0''),
                (''error'', PDict [(''code'', PInt 1), (''message'', PStr ''not ready'')]),
                (''id'', PInt 1)]]
   = Some (Inl (GuiderError (PStr ''not ready''),
        (connected_to (Guider_init ''localhost'' 1)
           \<lparr>outbound = ''{"method":"guide","id":1,"params":''
                       @ ''[{"pixels":2.0,"time":10.0,"timeout":100.0},false]}'' @ [CR, LF],
            send_caps = [], recv_data = []\<rparr>)
        \<lparr>Settle := None\<rparr>))
   \<and> Settle ((connected_to (Guider_init ''localhost'' 1)
         \<lparr>outbound = [], send_caps = [4096], recv_data = []\<rparr>)
      \<lparr>Settle := Some \<lparr>Done = True, Distance = 0, SettlePx = 0, Time = 0, SettleTime = 0,
                        Status = 0, Error = None\<rparr>\<rparr>) \<noteq> None\<close>
  by (simp add: Guide_def CheckConnected_def IsConnected_def Call_def WriteLine_def
      write_loop.simps send_def make_jsonrpc_def connected_to_def Conn_init_def
      Guider_init_def worker_step_def no_response_def failed_def contains_def
      error_message_def SettleProgress_init_def str_repr_def int_repr_def float_repr_def
      frac_repr_17_0 nat_repr.simps Let_def)

text \<open>
  Claim C4, amended. \<open>Guide\<close> first checks the connection; when that fails it raises and
  changes nothing. When a \<open>SettleProgress\<close> with \<open>Done = False\<close> is stored it fails (with
  \<open>GuiderError("cannot guide while settling")\<close> on a connected session) and the session
  is left as it was, so nothing is sent. Otherwise, on a connected session, it stores
  the pending \<open>SettleProgress\<close> (\<open>Done = False\<close>, \<open>Distance = 0\<close>, \<open>SettlePx = settlePixels\<close>,
  \<open>Time = 0\<close>, \<open>SettleTime = settleTime\<close>) and makes the call \<open>guide\<close> with
  \<open>[{pixels, time, timeout}, false]\<close> from that state. When the call raises, the error is
  passed on and the \<open>Settle\<close> slot is cleared (set to \<open>None\<close>); when the call returns,
  \<open>settle_px\<close> becomes \<open>settlePixels\<close> and the request line has been written. \<open>Dither\<close>
  does the same with the method \<open>dither\<close>, the parameters
  \<open>[ditherPixels, false, {pixels, time, timeout}]\<close>, the pending \<open>Distance\<close> equal to
  \<open>ditherPixels\<close> and the message "cannot dither while settling".
\<close>

theorem Guide_Dither_contract:
  fixes dumps self settlePixels settleTime settleTimeout ditherPixels msgs
  defines "settling \<equiv> (\<exists>t. Settle self = Some t \<and> \<not> Done t)"
  defines "opts \<equiv> PDict [(''pixels'', PFloat settlePixels), (''time'', PFloat settleTime),
                          (''timeout'', PFloat settleTimeout)]"
  defines "pending dst \<equiv> \<lparr>Done = False, Distance = dst, SettlePx = settlePixels, Time = 0,
                           SettleTime = settleTime, Status = 0, Error = None\<rparr>"
  defines "G \<equiv> Guide dumps self settlePixels settleTime settleTimeout msgs"
  defines "callG \<equiv> Call dumps (self\<lparr>Settle := Some (pending 0)\<rparr>) ''guide''
                       (PList [opts, PBool False]) msgs"
  defines "D \<equiv> Dither dumps self ditherPixels settlePixels settleTime settleTimeout msgs"
  defines "callD \<equiv> Call dumps (self\<lparr>Settle := Some (pending ditherPixels)\<rparr>) ''dither''
                       (PList [PFloat ditherPixels, PBool False, opts]) msgs"
  shows "(\<forall>e. CheckConnected self = Inl e \<longrightarrow>
            G = Some (Inl (e, self)) \<and> D = Some (Inl (e, self)))
       \<and> (CheckConnected self = Inr () \<and> settling \<longrightarrow>
            G = Some (Inl (GuiderError (PStr ''cannot guide while settling''), self))
          \<and> D = Some (Inl (GuiderError (PStr ''cannot dither while settling''), self)))
       \<and> (CheckConnected self = Inr () \<and> \<not> settling \<longrightarrow>
            (callG = None \<longrightarrow> G = None)
          \<and> (\<forall>e self'. callG = Some (Inl (e, self')) \<longrightarrow>
                G = Some (Inl (e, self'\<lparr>Settle := None\<rparr>)))
          \<and> (\<forall>r self'. callG = Some (Inr (r, self')) \<longrightarrow>
                G = Some (Inr ((), self'\<lparr>settle_px := settlePixels\<rparr>))
              \<and> sent_bytes self'
                  = sent_bytes self
                    @ make_jsonrpc dumps ''guide'' (PList [opts, PBool False]) @ [CR, LF])
          \<and> (callD = None \<longrightarrow> D = None)
          \<and> (\<forall>e self'. callD = Some (Inl (e, self')) \<longrightarrow>
                D = Some (Inl (e, self'\<lparr>Settle := None\<rparr>)))
          \<and> (\<forall>r self'. callD = Some (Inr (r, self')) \<longrightarrow>
                D = Some (Inr ((), self'\<lparr>settle_px := settlePixels\<rparr>))
              \<and> sent_bytes self'
                  = sent_bytes self
                    @ make_jsonrpc dumps ''dither''
                        (PList [PFloat ditherPixels, PBool False, opts]) @ [CR, LF]))"
proof -
  have notconn: "G = Some (Inl (e, self)) \<and> D = Some (Inl (e, self))"
    if "CheckConnected self = Inl e" for e
    using that by (simp add: G_def D_def Guide_def Dither_def)
  have busy: "G = Some (Inl (GuiderError (PStr ''cannot guide while settling''), self))
          \<and> D = Some (Inl (GuiderError (PStr ''cannot dither while settling''), self))"
    if "CheckConnected self = Inr ()" settling
    using that(1) that(2) [unfolded settling_def, folded settling_iff]
    by (simp add: G_def D_def Guide_def Dither_def Let_def)
  have ns: "(case Settle self of None \<Rightarrow> False | Some t \<Rightarrow> \<not> Done t) = False"
    if "\<not> settling"
    using that settling_iff [of self] by (simp add: settling_def)
  have free_G: "G = (case callG of
                      None \<Rightarrow> None
                    | Some (Inl (e, self')) \<Rightarrow> Some (Inl (e, self'\<lparr>Settle := None\<rparr>))
                    | Some (Inr (_, self')) \<Rightarrow>
                        Some (Inr ((), self'\<lparr>settle_px := settlePixels\<rparr>)))"
    if "CheckConnected self = Inr ()" "\<not> settling"
    using that(1) ns [OF that(2)]
    by (simp add: G_def callG_def Guide_def Let_def SettleProgress_init_def pending_def
        opts_def)
  have free_D: "D = (case callD of
                      None \<Rightarrow> None
                    | Some (Inl (e, self')) \<Rightarrow> Some (Inl (e, self'\<lparr>Settle := None\<rparr>))
                    | Some (Inr (_, self')) \<Rightarrow>
                        Some (Inr ((), self'\<lparr>settle_px := settlePixels\<rparr>)))"
    if "CheckConnected self = Inr ()" "\<not> settling"
    using that(1) ns [OF that(2)]
    by (simp add: D_def callD_def Dither_def Let_def SettleProgress_init_def pending_def
        opts_def)
  have sent_G: "sent_bytes self'
                  = sent_bytes self
                    @ make_jsonrpc dumps ''guide'' (PList [opts, PBool False]) @ [CR, LF]"
    if "callG = Some (Inr (r, self'))" for r self'
    using Call_returns_sent [OF that [unfolded callG_def]] by (simp add: sent_bytes_def)
  have sent_D: "sent_bytes self'
                  = sent_bytes self
                    @ make_jsonrpc dumps ''dither''
                        (PList [PFloat ditherPixels, PBool False, opts]) @ [CR, LF]"
    if "callD = Some (Inr (r, self'))" for r self'
    using Call_returns_sent [OF that [unfolded callD_def]] by (simp add: sent_bytes_def)
  have free: "(callG = None \<longrightarrow> G = None)
          \<and> (\<forall>e self'. callG = Some (Inl (e, self')) \<longrightarrow>
                G = Some (Inl (e, self'\<lparr>Settle := None\<rparr>)))
          \<and> (\<forall>r self'. callG = Some (Inr (r, self')) \<longrightarrow>
                G = Some (Inr ((), self'\<lparr>settle_px := settlePixels\<rparr>))
              \<and> sent_bytes self'
                  = sent_bytes self
                    @ make_jsonrpc dumps ''guide'' (PList [opts, PBool False]) @ [CR, LF])
          \<and> (callD = None \<longrightarrow> D = None)
          \<and> (\<forall>e self'. callD = Some (Inl (e, self')) \<longrightarrow>
                D = Some (Inl (e, self'\<lparr>Settle := None\<rparr>)))
          \<and> (\<forall>r self'. callD = Some (Inr (r, self')) \<longrightarrow>
                D = Some (Inr ((), self'\<lparr>settle_px := settlePixels\<rparr>))
              \<and> sent_bytes self'
                  = sent_bytes self
                    @ make_jsonrpc dumps ''dither''
                        (PList [PFloat ditherPixels, PBool False, opts]) @ [CR, LF])"
    if c: "CheckConnected self = Inr ()" "\<not> settling"
    using free_G [OF c] free_D [OF c] sent_G sent_D by simp
  show ?thesis using notconn busy free by blast
qed

theorem Guide_Dither_contract_witness:
  \<open>let g = connected_to (Guider_init ''localhost'' 1)
             \<lparr>outbound = [], send_caps = [4096], recv_data = []\<rparr>;
       reply = [(''jsonrpc'', PStr ''2.0''), (''result'', PInt 0), (''id'', PInt 1)];
       pending = \<lparr>Done = False, Distance = 0, SettlePx = 2, Time = 0, SettleTime = 10,
                  Status = 0, Error = None\<rparr>
   in Guide json_dumps (Guider_init ''localhost'' 1) 2 10 100 [Response reply]
        = Some (Inl (NotConnectedError, Guider_init ''localhost'' 1))
      \<and> Guide json_dumps (g\<lparr>Settle := Some pending\<rparr>) 2 10 100 [Response reply]
        = Some (Inl (GuiderError (PStr ''cannot guide while settling''),
                     g\<lparr>Settle := Some pending\<rparr>))
      \<and> Dither json_dumps (g\<lparr>Settle := Some pending\<rparr>) 3 2 10 100 [Response reply]
        = Some (Inl (GuiderError (PStr ''cannot dither while settling''),
                     g\<lparr>Settle := Some pending\<rparr>))
      \<and> (\<exists>g'. Guide json_dumps g 2 10 100 [Response reply] = Some (Inr ((), g'))
              \<and> settle_px g' = 2 \<and> Settle g' = Some pending
              \<and> sent_bytes g'
                  = ''{"method":"guide","id":1,"params":''
                    @ ''[{"pixels":2.0,"time":10.0,"timeout":100.0},false]}'' @ [CR, LF])
      \<and> (\<exists>g'. Dither json_dumps g 3 2 10 100 [Response reply] = Some (Inr ((), g'))
              \<and> settle_px g' = 2 \<and> Settle g' = Some (pending\<lparr>Distance := 3\<rparr>)
              \<and> sent_bytes g'
                  = ''{"method":"dither","id":1,"params":''
                    @ ''[3.0,false,{"pixels":2.0,"time":10.0,"timeout":100.0}]}''
                    @ [CR, LF])\<close>
proof -
  define g where "g = connected_to (Guider_init ''localhost'' 1)
             \<lparr>outbound = [], send_caps = [4096], recv_data = []\<rparr>"
  define reply where
    "reply = [(''jsonrpc'', PStr ''2.0''), (''result'', PInt 0), (''id'', PInt 1)]"
  define pending where "pending = \<lparr>Done = False, Distance = 0, SettlePx = 2, Time = 0,
      SettleTime = 10, Status = 0, Error = None\<rparr>"
  note evals = Call_def WriteLine_def write_loop.simps send_def make_jsonrpc_def g_def
    reply_def connected_to_def Conn_init_def Guider_init_def worker_step_def
    no_response_def failed_def contains_def str_repr_def int_repr_def float_repr_def
    frac_repr_17_0 nat_repr.simps Let_def sent_bytes_def pending_def
  have nc: "CheckConnected (Guider_init ''localhost'' 1) = Inl NotConnectedError"
    by (simp add: CheckConnected_def Guider_init_def)
  have c: "CheckConnected (g\<lparr>Settle := s\<rparr>) = Inr ()" "CheckConnected g = Inr ()" for s
    by (simp_all add: g_def connected_to_def CheckConnected_def IsConnected_def Conn_init_def)
  have s0: "\<not> (\<exists>t. Settle g = Some t \<and> \<not> Done t)" "sent_bytes g = []"
    by (simp_all add: g_def connected_to_def Guider_init_def sent_bytes_def Conn_init_def)
  have s1: "\<exists>t. Settle (g\<lparr>Settle := Some pending\<rparr>) = Some t \<and> \<not> Done t"
    by (simp add: pending_def)
  from Guide_Dither_contract
    [of "Guider_init ''localhost'' 1" json_dumps 2 10 100 "[Response reply]"] nc
  have 1: "Guide json_dumps (Guider_init ''localhost'' 1) 2 10 100 [Response reply]
        = Some (Inl (NotConnectedError, Guider_init ''localhost'' 1))"
    by simp
  from Guide_Dither_contract
    [of "g\<lparr>Settle := Some pending\<rparr>" json_dumps 2 10 100 "[Response reply]" 3] c(1) s1
  have 2: "Guide json_dumps (g\<lparr>Settle := Some pending\<rparr>) 2 10 100 [Response reply]
        = Some (Inl (GuiderError (PStr ''cannot guide while settling''),
                     g\<lparr>Settle := Some pending\<rparr>))
      \<and> Dither json_dumps (g\<lparr>Settle := Some pending\<rparr>) 3 2 10 100 [Response reply]
        = Some (Inl (GuiderError (PStr ''cannot dither while settling''),
                     g\<lparr>Settle := Some pending\<rparr>))"
    by blast
  have "\<exists>r g'. Call json_dumps (g\<lparr>Settle := Some pending\<rparr>) ''guide''
          (PList [PDict [(''pixels'', PFloat 2), (''time'', PFloat 10),
                         (''timeout'', PFloat 100)], PBool False]) [Response reply]
        = Some (Inr (r, g')) \<and> Settle g' = Some pending"
    by (simp add: evals)
  then obtain r g' where cg: "Call json_dumps (g\<lparr>Settle := Some pending\<rparr>) ''guide''
          (PList [PDict [(''pixels'', PFloat 2), (''time'', PFloat 10),
                         (''timeout'', PFloat 100)], PBool False]) [Response reply]
        = Some (Inr (r, g'))" and sg: "Settle g' = Some pending"
    by blast
  from Guide_Dither_contract [of g json_dumps 2 10 100 "[Response reply]" 3] c(2) s0(1)
    cg [unfolded pending_def]
  have "Guide json_dumps g 2 10 100 [Response reply] = Some (Inr ((), g'\<lparr>settle_px := 2\<rparr>))
      \<and> sent_bytes g'
          = sent_bytes g
            @ make_jsonrpc json_dumps ''guide''
                (PList [PDict [(''pixels'', PFloat 2), (''time'', PFloat 10),
                               (''timeout'', PFloat 100)], PBool False]) @ [CR, LF]"
    by blast
  then have 3: \<open>\<exists>g'. Guide json_dumps g 2 10 100 [Response reply] = Some (Inr ((), g'))
              \<and> settle_px g' = 2 \<and> Settle g' = Some pending
              \<and> sent_bytes g'
                  = ''{"method":"guide","id":1,"params":''
                    @ ''[{"pixels":2.0,"time":10.0,"timeout":100.0},false]}'' @ [CR, LF]\<close>
    using sg s0(2)
    by (simp add: make_jsonrpc_def str_repr_def int_repr_def float_repr_def frac_repr_17_0
        nat_repr.simps sent_bytes_def)
  have "\<exists>r g'. Call json_dumps (g\<lparr>Settle := Some (pending\<lparr>Distance := 3\<rparr>)\<rparr>) ''dither''
          (PList [PFloat 3, PBool False,
                  PDict [(''pixels'', PFloat 2), (''time'', PFloat 10),
                         (''timeout'', PFloat 100)]]) [Response reply]
        = Some (Inr (r, g')) \<and> Settle g' = Some (pending\<lparr>Distance := 3\<rparr>)"
    by (simp add: evals)
  then obtain r' g'' where cd: "Call json_dumps
          (g\<lparr>Settle := Some (pending\<lparr>Distance := 3\<rparr>)\<rparr>) ''dither''
          (PList [PFloat 3, PBool False,
                  PDict [(''pixels'', PFloat 2), (''time'', PFloat 10),
                         (''timeout'', PFloat 100)]]) [Response reply]
        = Some (Inr (r', g''))" and sd: "Settle g'' = Some (pending\<lparr>Distance := 3\<rparr>)"
    by blast
  have pd: "pending\<lparr>Distance := 3\<rparr> = \<lparr>Done = False, Distance = 3, SettlePx = 2, Time = 0,
      SettleTime = 10, Status = 0, Error = None\<rparr>"
    by (simp add: pending_def)
  from Guide_Dither_contract [of g json_dumps 2 10 100 "[Response reply]" 3] c(2) s0(1)
    cd [unfolded pd]
  have "Dither json_dumps g 3 2 10 100 [Response reply]
          = Some (Inr ((), g''\<lparr>settle_px := 2\<rparr>))
      \<and> sent_bytes g''
          = sent_bytes g
            @ make_jsonrpc json_dumps ''dither''
                (PList [PFloat 3, PBool False,
                        PDict [(''pixels'', PFloat 2), (''time'', PFloat 10),
                               (''timeout'', PFloat 100)]]) @ [CR, LF]"
    by blast
  then have 4: \<open>\<exists>g'. Dither json_dumps g 3 2 10 100 [Response reply] = Some (Inr ((), g'))
              \<and> settle_px g' = 2 \<and> Settle g' = Some (pending\<lparr>Distance := 3\<rparr>)
              \<and> sent_bytes g'
                  = ''{"method":"dither","id":1,"params":''
                    @ ''[3.0,false,{"pixels":2.0,"time":10.0,"timeout":100.0}]}''
                    @ [CR, LF]\<close>
    using sd s0(2)
    by (simp add: make_jsonrpc_def str_repr_def int_repr_def float_repr_def frac_repr_17_0
        nat_repr.simps sent_bytes_def)
  show ?thesis
    unfolding Let_def g_def [symmetric] reply_def [symmetric] pending_def [symmetric]
    using 1 2 3 4 by blast
qed

section \<open>Responses that nobody waits for\<close>

text \<open>
  Claim C8, as stated: a response that the reader handles while no caller waits in
  \<open>Call\<close> is dropped and never becomes the result of a later \<open>Call\<close>. It fails: the
  reader stores the stray response in the slot, and the next call, \<open>get_exposure\<close>,
  returns it (\<open>result: 0\<close>) at once and leaves the server's answer to the call itself
  (\<open>result: 2000\<close>) unread.
\<close>

theorem stray_response_counterexample:
  \<open>worker (connected_to (Guider_init ''localhost'' 1)
             \<lparr>outbound = [], send_caps = [4096], recv_data = []\<rparr>)
      [Response [(''jsonrpc'', PStr ''2.0''), (''result'', PInt 0), (''id'', PInt 1)]]
   = Inr ((connected_to (Guider_init ''localhost'' 1)
             \<lparr>outbound = [], send_caps = [4096], recv_data = []\<rparr>)
          \<lparr>response :=
             Some [(''jsonrpc'', PStr ''2.0''), (''result'', PInt 0), (''id'', PInt 1)]\<rparr>)
   \<and> Call json_dumps
        ((connected_to (Guider_init ''localhost'' 1)
             \<lparr>outbound = [], send_caps = [4096], recv_data = []\<rparr>)
          \<lparr>response :=
             Some [(''jsonrpc'', PStr ''2.0''), (''result'', PInt 0), (''id'', PInt 1)]\<rparr>)
        ''get_exposure'' PNone
        [Response [(''jsonrpc'', PStr ''2.0''), (''result'', PInt 2000), (''id'', PInt 1)]]
     = Some (Inr ([(''jsonrpc'', PStr ''2.0''), (''result'', PInt 0), (''id'', PInt 1)],
          connected_to (Guider_init ''localhost'' 1)
             \<lparr>outbound = ''{"method":"get_exposure","id":1}'' @ [CR, LF],
              send_caps = [], recv_data = []\<rparr>))\<close>
  by (simp add: Call_def WriteLine_def write_loop.simps send_def make_jsonrpc_def
      connected_to_def Conn_init_def Guider_init_def worker_step_def no_response_def
      failed_def contains_def str_repr_def int_repr_def nat_repr.simps Let_def)

text \<open>
  Claim C8, amended. The reader stores every object that has the \<open>jsonrpc\<close> key in the
  response slot, whether or not a caller waits, replacing what the slot held. A response
  that is in the slot when \<open>Call\<close> starts is what that \<open>Call\<close> delivers, once its request
  has been written: it returns the stored object, or raises the error the object
  carries, whatever arrives afterwards.
\<close>

theorem stray_response_retained:
  "worker_step self (Response j) = Inr (self\<lparr>response := Some j\<rparr>)
   \<and> (\<not> Guider.terminate self \<longrightarrow>
        worker self [Response j] = Inr (self\<lparr>response := Some j\<rparr>))
   \<and> (\<forall>dumps c c' m p msgs.
        response self = Some j \<and> contains j ''jsonrpc'' \<and> conn self = Some c
        \<and> WriteLine c (make_jsonrpc dumps m p @ [CR, LF]) = Inr c' \<longrightarrow>
        Call dumps self m p msgs
        = Some (if failed j
                then Inl (error_message j, self\<lparr>conn := Some c', response := None\<rparr>)
                else Inr (j, self\<lparr>conn := Some c', response := None\<rparr>)))"
proof -
  have aw: "await_response g msgs = Some (j, g)"
    if "response g = Some j" "contains j ''jsonrpc''" for g msgs
    using that by (cases msgs) (auto simp add: no_response_def contains_def)
  have "Call dumps self m p msgs
        = Some (if failed j
                then Inl (error_message j, self\<lparr>conn := Some c', response := None\<rparr>)
                else Inr (j, self\<lparr>conn := Some c', response := None\<rparr>))"
    if "response self = Some j" "contains j ''jsonrpc''" "conn self = Some c"
      "WriteLine c (make_jsonrpc dumps m p @ [CR, LF]) = Inr c'" for dumps c c' m p msgs
    using that aw [of "self\<lparr>conn := Some c'\<rparr>" msgs]
    by (simp add: Call_def Let_def)
  then show ?thesis by (simp add: worker_step_def)
qed

theorem stray_response_retained_witness:
  \<open>let g = connected_to (Guider_init ''localhost'' 1)
             \<lparr>outbound = [], send_caps = [4096], recv_data = []\<rparr>;
       stray = [(''jsonrpc'', PStr ''2.0''), (''result'', PInt 0), (''id'', PInt 1)];
       reply = [(''jsonrpc'', PStr ''2.0''), (''result'', PInt 2000), (''id'', PInt 1)]
   in \<not> Guider.terminate g \<and> contains stray ''jsonrpc''
      \<and> worker g [Response stray] = Inr (g\<lparr>response := Some stray\<rparr>)
      \<and> (\<exists>g'. Call json_dumps (g\<lparr>response := Some stray\<rparr>) ''get_exposure'' PNone
                 [Response reply] = Some (Inr (stray, g'))
              \<and> response g' = None
              \<and> sent_bytes g' = ''{"method":"get_exposure","id":1}'' @ [CR, LF])\<close>
proof -
  define g where "g = connected_to (Guider_init ''localhost'' 1)
             \<lparr>outbound = [], send_caps = [4096], recv_data = []\<rparr>"
  define stray where
    "stray = [(''jsonrpc'', PStr ''2.0''), (''result'', PInt 0), (''id'', PInt 1)]"
  define reply where
    "reply = [(''jsonrpc'', PStr ''2.0''), (''result'', PInt 2000), (''id'', PInt 1)]"
  define c where "c = Conn_init\<lparr>sock := Some \<lparr>outbound = [], send_caps = [4096],
      recv_data = []\<rparr>, sel := Some DefaultSelector\<rparr>"
  define c' where "c' = Conn_init\<lparr>sock := Some
      \<lparr>outbound = make_jsonrpc json_dumps ''get_exposure'' PNone @ [CR, LF],
       send_caps = [], recv_data = []\<rparr>, sel := Some DefaultSelector\<rparr>"
  have t: "\<not> Guider.terminate g" and cj: "contains stray ''jsonrpc''"
    and nf: "\<not> failed stray"
    and cn: "conn (g\<lparr>response := Some stray\<rparr>) = Some c"
    by (simp_all add: g_def connected_to_def stray_def contains_def failed_def c_def)
  have w: "WriteLine c (make_jsonrpc json_dumps ''get_exposure'' PNone @ [CR, LF]) = Inr c'"
    by (simp add: c_def c'_def WriteLine_def write_loop.simps send_def make_jsonrpc_def
        Conn_init_def str_repr_def int_repr_def nat_repr.simps)
  from stray_response_retained [of g stray] t
  have 1: "worker g [Response stray] = Inr (g\<lparr>response := Some stray\<rparr>)"
    by blast
  from stray_response_retained [of "g\<lparr>response := Some stray\<rparr>" stray] cj cn w nf
  have "Call json_dumps (g\<lparr>response := Some stray\<rparr>) ''get_exposure'' PNone
          [Response reply]
        = Some (Inr (stray, g\<lparr>response := Some stray, conn := Some c', response := None\<rparr>))"
    by simp
  moreover have \<open>sent_bytes (g\<lparr>response := Some stray, conn := Some c', response := None\<rparr>)
      = ''{"method":"get_exposure","id":1}'' @ [CR, LF]\<close>
    by (simp add: sent_bytes_def c'_def make_jsonrpc_def str_repr_def int_repr_def
        nat_repr.simps)
  ultimately have 2: \<open>\<exists>g'. Call json_dumps (g\<lparr>response := Some stray\<rparr>) ''get_exposure''
                 PNone [Response reply] = Some (Inr (stray, g'))
              \<and> response g' = None
              \<and> sent_bytes g' = ''{"method":"get_exposure","id":1}'' @ [CR, LF]\<close>
    by simp
  show ?thesis
    unfolding Let_def g_def [symmetric] stray_def [symmetric] reply_def [symmetric]
    using t cj 1 2 by blast
qed

section \<open>Line framing\<close>

lemma slice_Suc: "i0 \<le> i \<Longrightarrow> i < length s \<Longrightarrow> slice s i0 (Suc i) = slice s i0 i @ [s ! i]"
proof -
  assume a: "i0 \<le> i" "i < length s"
  then have "Suc i - i0 = Suc (i - i0)" by simp
  moreover have "i - i0 < length (drop i0 s)" using a by simp
  ultimately have "take (Suc i - i0) (drop i0 s)
      = take (i - i0) (drop i0 s) @ [drop i0 s ! (i - i0)]"
    by (simp add: take_Suc_conv_app_nth)
  then show ?thesis using a by (simp add: slice_def)
qed

lemma slice_empty: "slice s i i = []"
  by (simp add: slice_def)

text \<open>The loop of \<open>ReadLine\<close> over one chunk follows the framing rule.\<close>

lemma scan_loop_frame:
  "i0 \<le> i \<Longrightarrow> i \<le> length s \<Longrightarrow>
   (case scan_loop c s i0 i of (c', j0, j) \<Rightarrow> c'\<lparr>buf := buf c' @ slice s j0 j\<rparr>)
   = c\<lparr>lines := lines c @ fst (frame_spec (buf c @ slice s i0 i) (drop i s)),
       buf := snd (frame_spec (buf c @ slice s i0 i) (drop i s))\<rparr>"
proof (induction c s i0 i rule: scan_loop.induct)
  case (1 self s i0 i)
  show ?case
  proof (cases "i < length s")
    case False
    with "1.prems" show ?thesis by (subst scan_loop.simps) simp
  next
    case inside: True
    then have d: "drop i s = s ! i # drop (Suc i) s"
      by (simp add: Cons_nth_drop_Suc)
    show ?thesis
    proof (cases "s ! i = CR \<or> s ! i = LF")
      case True
      define acc where "acc = buf self @ slice s i0 i"
      show ?thesis
      proof (cases "acc = []")
        case empty: True
        then have e: "buf self = []" "slice s i0 i = []" by (simp_all add: acc_def)
        have step: "scan_loop self s i0 i = scan_loop (self\<lparr>buf := []\<rparr>) s (Suc i) (Suc i)"
          using inside True e by (subst scan_loop.simps) (simp add: Let_def)
        have ih: "(case scan_loop (self\<lparr>buf := []\<rparr>) s (Suc i) (Suc i) of
                     (c', j0, j) \<Rightarrow> c'\<lparr>buf := buf c' @ slice s j0 j\<rparr>)
            = self\<lparr>lines := lines self @ fst (frame_spec [] (drop (Suc i) s)),
                   buf := snd (frame_spec [] (drop (Suc i) s))\<rparr>"
          using "1.IH"(1) [OF inside True refl refl] inside e by (simp add: slice_empty)
        show ?thesis
          unfolding step ih using True e by (simp add: d)
      next
        case False
        then have ne: "buf self @ slice s i0 i \<noteq> []" by (simp add: acc_def)
        have step: "scan_loop self s i0 i
            = scan_loop (self\<lparr>lines := lines self @ [acc], buf := []\<rparr>) s (Suc i) (Suc i)"
          using inside True ne by (subst scan_loop.simps) (simp add: Let_def acc_def)
        have ih: "(case scan_loop (self\<lparr>lines := lines self @ [acc], buf := []\<rparr>) s
                          (Suc i) (Suc i) of
                     (c', j0, j) \<Rightarrow> c'\<lparr>buf := buf c' @ slice s j0 j\<rparr>)
            = self\<lparr>lines := lines self @ [acc] @ fst (frame_spec [] (drop (Suc i) s)),
                   buf := snd (frame_spec [] (drop (Suc i) s))\<rparr>"
          using "1.IH"(1) [OF inside True refl refl] inside ne
          by (simp add: slice_empty acc_def)
        show ?thesis
          unfolding step ih using True ne by (simp add: d acc_def)
      qed
    next
      case False
      have ih: "(case scan_loop self s i0 (Suc i) of
                   (c', j0, j) \<Rightarrow> c'\<lparr>buf := buf c' @ slice s j0 j\<rparr>)
          = self\<lparr>lines := lines self @ fst (frame_spec (buf self @ slice s i0 (Suc i))
                                               (drop (Suc i) s)),
                 buf := snd (frame_spec (buf self @ slice s i0 (Suc i)) (drop (Suc i) s))\<rparr>"
        using "1.IH"(2) [OF inside False] "1.prems" inside by simp
      have step: "scan_loop self s i0 i = scan_loop self s i0 (Suc i)"
        using inside False by (subst scan_loop.simps) simp
      show ?thesis
        unfolding step ih
        using False "1.prems" inside by (simp add: d slice_Suc)
    qed
  qed
qed

lemma scan_frame:
  "scan c s = c\<lparr>lines := lines c @ fst (frame_spec (buf c) s),
                 buf := snd (frame_spec (buf c) s)\<rparr>"
  using scan_loop_frame [of 0 0 s c] by (simp add: scan_def slice_empty)

lemma frame_spec_append:
  "frame_spec acc (s @ t)
   = (fst (frame_spec acc s) @ fst (frame_spec (snd (frame_spec acc s)) t),
      snd (frame_spec (snd (frame_spec acc s)) t))"
  by (induction s arbitrary: acc) simp_all

lemma scan_append: "scan (scan c s) t = scan c (s @ t)"
  by (simp add: scan_frame frame_spec_append)

lemma scan_Nil: "scan c [] = c"
  by (simp add: scan_frame)

lemma foldl_scan: "foldl scan c chunks = scan c (concat chunks)"
  by (induction chunks arbitrary: c) (simp_all add: scan_Nil scan_append)

lemma frame_spec_nonempty: "[] \<notin> set (fst (frame_spec acc s))"
  by (induction s arbitrary: acc) simp_all

lemma frame_spec_no_terminator:
  "CR \<notin> set acc \<Longrightarrow> LF \<notin> set acc \<Longrightarrow> l \<in> set (fst (frame_spec acc s)) \<Longrightarrow>
   CR \<notin> set l \<and> LF \<notin> set l"
proof (induction s arbitrary: acc)
  case Nil
  then show ?case by simp
next
  case (Cons b bs)
  show ?case
  proof (cases "b = CR \<or> b = LF")
    case True
    with Cons.prems have "l = acc \<or> l \<in> set (fst (frame_spec [] bs))"
      by (auto split: if_splits)
    then show ?thesis
      using Cons.prems(1,2) Cons.IH [of "[]"] by auto
  next
    case False
    with Cons.prems have "l \<in> set (fst (frame_spec (acc @ [b]) bs))" by simp
    moreover have "CR \<notin> set (acc @ [b])" "LF \<notin> set (acc @ [b])"
      using False Cons.prems(1,2) by auto
    ultimately show ?thesis using Cons.IH [of "acc @ [b]"] by blast
  qed
qed

text \<open>
  \<open>ReadLine\<close> hands over the pending lines one by one, in order, and waits for ever
  exactly when none is left.
\<close>

lemma ReadLine_pending:
  "sock c \<noteq> None \<Longrightarrow> sel c \<noteq> None \<Longrightarrow> \<not> Conn.terminate c \<Longrightarrow>
   (case pending_lines c of
      [] \<Rightarrow> ReadLine c = None
    | l # ls \<Rightarrow>
        (\<exists>c'. ReadLine c = Some (Inr (l, c')) \<and> pending_lines c' = ls
              \<and> sock c' \<noteq> None \<and> sel c' \<noteq> None \<and> \<not> Conn.terminate c'))"
proof (induction c rule: ReadLine.induct)
  case (1 self)
  from "1.prems" obtain sk sl where sk: "sock self = Some sk" and sl: "sel self = Some sl"
    by auto
  show ?case
  proof (cases "lines self")
    case (Cons l ls)
    then have "ReadLine self = Some (Inr (l, self\<lparr>lines := ls\<rparr>))"
      using sk sl by (subst ReadLine.simps) simp
    then show ?thesis using Cons "1.prems" sk by (simp add: pending_lines_def)
  next
    case Nil
    show ?thesis
    proof (cases "recv_data sk")
      case empty: Nil
      then have "ReadLine self = None"
        using Nil "1.prems"(3) sk sl by (subst ReadLine.simps) (simp add: recv_def)
      then show ?thesis using Nil sk empty by (simp add: pending_lines_def)
    next
      case (Cons s rest)
      define sk' where "sk' = sk\<lparr>recv_data := rest\<rparr>"
      define c1 where "c1 = scan (self\<lparr>sock := Some sk'\<rparr>) s"
      have r: "recv sk = Some (s, sk')" by (simp add: recv_def Cons sk'_def)
      have step: "ReadLine self = ReadLine c1"
        using Nil "1.prems"(3) sk sl r by (subst ReadLine.simps) (simp add: c1_def)
      have c1: "sock c1 = Some sk'" "sel c1 = sel self"
        "Conn.terminate c1 = Conn.terminate self"
        "lines c1 = fst (frame_spec (buf self) s)" "buf c1 = snd (frame_spec (buf self) s)"
        by (simp_all add: c1_def scan_frame Nil)
      have p: "pending_lines c1 = pending_lines self"
        by (simp add: pending_lines_def c1 sk Nil Cons sk'_def frame_spec_append)
      have "\<not> (sock self = None \<or> sel self = None)" using "1.prems" by simp
      from "1.IH" [OF this Nil "1.prems"(3) sk r refl, folded c1_def] c1 sl "1.prems"(3)
      have ih: "case pending_lines c1 of
                  [] \<Rightarrow> ReadLine c1 = None
                | l # ls \<Rightarrow>
                    (\<exists>c'. ReadLine c1 = Some (Inr (l, c')) \<and> pending_lines c' = ls
                          \<and> sock c' \<noteq> None \<and> sel c' \<noteq> None \<and> \<not> Conn.terminate c')"
        by simp
      show ?thesis using ih unfolding step p .
    qed
  qed
qed

text \<open>
  Claim C5. Feeding a byte string to the framer in chunks, however it is split, leaves
  the connection with the same queue of lines and the same residue as feeding it whole.
  The lines are those of the framing rule: every CR or LF closes the accumulated line,
  which is emitted only if it is not empty, and the bytes after the last terminator are
  carried over. \<open>ReadLine\<close> then hands over these lines in order, one for each call, whatever
  the chunks were, and waits once none is left.
\<close>

theorem framer_chunking:
  "foldl scan c chunks = scan c (concat chunks)
   \<and> scan c s = c\<lparr>lines := lines c @ fst (frame_spec (buf c) s),
                    buf := snd (frame_spec (buf c) s)\<rparr>
   \<and> [] \<notin> set (fst (frame_spec (buf c) s))
   \<and> (sock c \<noteq> None \<and> sel c \<noteq> None \<and> \<not> Conn.terminate c \<longrightarrow>
        (pending_lines c = [] \<longrightarrow> ReadLine c = None)
      \<and> (\<forall>l ls. pending_lines c = l # ls \<longrightarrow>
            (\<exists>c'. ReadLine c = Some (Inr (l, c')) \<and> pending_lines c' = ls
                  \<and> sock c' \<noteq> None \<and> sel c' \<noteq> None \<and> \<not> Conn.terminate c')))"
proof -
  have "(pending_lines c = [] \<longrightarrow> ReadLine c = None)
      \<and> (\<forall>l ls. pending_lines c = l # ls \<longrightarrow>
            (\<exists>c'. ReadLine c = Some (Inr (l, c')) \<and> pending_lines c' = ls
                  \<and> sock c' \<noteq> None \<and> sel c' \<noteq> None \<and> \<not> Conn.terminate c'))"
    if "sock c \<noteq> None" "sel c \<noteq> None" "\<not> Conn.terminate c"
    using ReadLine_pending [OF that] by (cases "pending_lines c") simp_all
  then show ?thesis
    using foldl_scan [of c chunks] scan_frame [of c s] frame_spec_nonempty [of "buf c" s]
    by blast
qed

theorem framer_chunking_witness:
  "let chunks = [''ab'', ''c'' @ [CR], [LF, LF] @ ''de'' @ [CR, LF] @ ''xy''];
       whole = ''abc'' @ [CR, LF, LF] @ ''de'' @ [CR, LF] @ ''xy'';
       c = Conn_init\<lparr>sock := Some \<lparr>outbound = [], send_caps = [], recv_data = chunks\<rparr>,
                      sel := Some DefaultSelector\<rparr>
   in concat chunks = whole
      \<and> foldl scan Conn_init chunks = Conn_init\<lparr>lines := [''abc'', ''de''], buf := ''xy''\<rparr>
      \<and> scan Conn_init whole = Conn_init\<lparr>lines := [''abc'', ''de''], buf := ''xy''\<rparr>
      \<and> sock c \<noteq> None \<and> sel c \<noteq> None \<and> \<not> Conn.terminate c
      \<and> pending_lines c = [''abc'', ''de'']
      \<and> (\<exists>c'. ReadLine c = Some (Inr (''abc'', c')) \<and> pending_lines c' = [''de''])"
proof -
  define chunks where "chunks = [''ab'', ''c'' @ [CR], [LF, LF] @ ''de'' @ [CR, LF] @ ''xy'']"
  define whole where "whole = ''abc'' @ [CR, LF, LF] @ ''de'' @ [CR, LF] @ ''xy''"
  define c where "c = Conn_init\<lparr>sock := Some \<lparr>outbound = [], send_caps = [],
      recv_data = chunks\<rparr>, sel := Some DefaultSelector\<rparr>"
  have w: "concat chunks = whole" by (simp add: chunks_def whole_def)
  have f: "frame_spec [] whole = ([''abc'', ''de''], ''xy'')"
    by (simp add: whole_def CR_def LF_def)
  have 1: "scan Conn_init whole = Conn_init\<lparr>lines := [''abc'', ''de''], buf := ''xy''\<rparr>"
    using framer_chunking [of Conn_init chunks whole] f by (simp add: Conn_init_def)
  have 2: "foldl scan Conn_init chunks
      = Conn_init\<lparr>lines := [''abc'', ''de''], buf := ''xy''\<rparr>"
    using framer_chunking [of Conn_init chunks whole] w 1 by simp
  have h: "sock c \<noteq> None" "sel c \<noteq> None" "\<not> Conn.terminate c"
    by (simp_all add: c_def Conn_init_def)
  have p: "pending_lines c = [''abc'', ''de'']"
    using w f by (simp add: pending_lines_def c_def Conn_init_def)
  from framer_chunking [of c chunks whole] h p
  have 3: "\<exists>c'. ReadLine c = Some (Inr (''abc'', c')) \<and> pending_lines c' = [''de'']"
    by blast
  show ?thesis
    unfolding Let_def chunks_def [symmetric] whole_def [symmetric] c_def [symmetric]
    using w 1 2 h p 3 by blast
qed

section \<open>Guide statistics and the event stream\<close>

lemma Accum_stats:
  fixes xs :: "real list"
  assumes z: "n acc0 = 0" "a acc0 = 0" "q acc0 = 0" "peak acc0 = 0"
  shows "Stdev (foldl Add acc0 xs) = Inr (rms_spec xs)"
    and "Peak (foldl Add acc0 xs) = peak_spec xs"
proof -
  define acc where "acc = foldl Add acc0 xs"
  have nacc: "n acc = int (length xs)"
    by (simp add: acc_def foldl_Add_n z)
  have inv: "a acc * real (length xs) = sum_list xs"
    "q acc = sum_list (map (\<lambda>x. x\<^sup>2) xs) - real (length xs) * (a acc)\<^sup>2"
    using welford_inv [OF z(1) z(2) z(3), of xs] by (simp_all add: acc_def)
  have qdev: "q acc = sum_list (map (\<lambda>x. (x - a acc)\<^sup>2) xs)"
    using sum_sq_dev [OF inv(1)] inv(2) by simp
  have pk: "peak acc = Max (insert 0 (abs ` set xs))"
    by (simp add: acc_def foldl_Add_peak z)
  show "Stdev (foldl Add acc0 xs) = Inr (rms_spec xs)"
  proof (cases "xs = []")
    case True
    then show ?thesis by (simp add: Stdev_def rms_spec_def z)
  next
    case ne: False
    have len: "0 < real (length xs)" using ne by simp
    have m: "a acc = sum_list xs / real (length xs)"
      using inv(1) len by (simp add: field_simps)
    have n1: "n acc \<ge> 1" using ne nacc by (cases xs) simp_all
    have nn: "\<not> q acc / real_of_int (n acc) < 0"
      using sum_sq_dev_nonneg [of "a acc" xs] qdev nacc len by (simp add: not_less)
    have "Stdev acc = Inr (rms_spec xs)"
      using n1 nn ne by (simp add: Stdev_def rms_spec_def qdev [symmetric] m [symmetric] nacc)
    then show ?thesis by (simp add: acc_def)
  qed
  show "Peak (foldl Add acc0 xs) = peak_spec xs"
  proof (cases "xs = []")
    case True
    then show ?thesis by (simp add: Peak_def peak_spec_def z)
  next
    case ne: False
    have "Max (insert 0 (abs ` set xs)) = max 0 (Max (abs ` set xs))"
      using ne by simp
    moreover have "0 \<le> Max (abs ` set xs)"
      using ne by (cases xs) (auto simp add: Max_ge_iff)
    ultimately have "Peak acc = Max (abs ` set xs)" by (simp add: Peak_def pk)
    then show ?thesis using ne by (simp add: acc_def peak_spec_def)
  qed
qed

lemma accum_get_stats_samples:
  "accum_get_stats (foldl Add (Reset r1) (map fst S)) (foldl Add (Reset r2) (map snd S))
   = Inr (stats_spec S)"
proof -
  have z: "n (Reset r) = 0" "a (Reset r) = 0" "q (Reset r) = 0" "peak (Reset r) = 0" for r
    by (simp_all add: Reset_def)
  note A1 = Accum_stats [OF z, of r1] and A2 = Accum_stats [OF z, of r2]
  show ?thesis
    by (simp add: accum_get_stats_def stats_spec_def GuideStats_init_def A1 A2)
qed

lemma accum_ok_Reset: "accum_ok (Reset acc)"
  by (simp add: accum_ok_def Reset_def)

lemma accum_ok_init: "accum_ok Accum_init"
  by (simp add: accum_ok_def Accum_init_def Reset_def)

lemma accum_ok_Add: "accum_ok acc \<Longrightarrow> accum_ok (Add acc x)"
proof -
  assume ok: "accum_ok acc"
  define m where "m = real_of_int (n acc)"
  define d where "d = x - a acc"
  have m0: "0 \<le> m" using ok by (simp add: accum_ok_def m_def)
  have "x - a (Add acc x) = d - d / (m + 1)"
    by (simp add: Add_a d_def m_def)
  also have "\<dots> = d * (m / (m + 1))"
    using m0 by (simp add: field_simps)
  finally have "(x - a (Add acc x)) * (x - a acc) = d * d * (m / (m + 1))"
    by (simp add: d_def)
  moreover have "0 \<le> d * d * (m / (m + 1))"
  proof -
    have "0 \<le> d * d" by simp
    moreover have "0 \<le> m / (m + 1)" using m0 by simp
    ultimately show ?thesis by (rule mult_nonneg_nonneg)
  qed
  ultimately have "0 \<le> q (Add acc x)"
    using ok by (simp add: Add_q accum_ok_def)
  then show ?thesis using ok by (simp add: accum_ok_def Add_n)
qed

lemma accum_ok_Stdev: "accum_ok acc \<Longrightarrow> \<exists>r. Stdev acc = Inr r"
proof -
  assume "accum_ok acc"
  then have "0 \<le> q acc / real_of_int (n acc)"
    by (simp add: accum_ok_def)
  then show ?thesis by (simp add: Stdev_def not_less)
qed

lemma accum_ok_get_stats:
  "accum_ok ra \<Longrightarrow> accum_ok dec \<Longrightarrow> \<exists>st. accum_get_stats ra dec = Inr st"
  using accum_ok_Stdev [of ra] accum_ok_Stdev [of dec]
  by (auto simp add: accum_get_stats_def)

lemma Reset_Accum_init: "Reset acc = Accum_init"
  by (simp add: Accum_init_def Reset_def)

lemma stats_spec_Nil: "stats_spec [] = GuideStats_init"
  by (simp add: stats_spec_def rms_spec_def peak_spec_def GuideStats_init_def)

lemma accum_get_stats_init: "accum_get_stats Accum_init Accum_init = Inr GuideStats_init"
  using accum_get_stats_samples [of "\<lparr>n = 0, a = 0, q = 0, peak = 0\<rparr>" "[]"
      "\<lparr>n = 0, a = 0, q = 0, peak = 0\<rparr>"]
  by (simp add: Accum_init_def stats_spec_Nil)

lemma accum_get_stats_snoc:
  "accum_get_stats (Add (foldl Add Accum_init (map fst S)) x)
                   (Add (foldl Add Accum_init (map snd S)) y)
   = Inr (stats_spec (S @ [(x, y)]))"
  using accum_get_stats_samples [of "\<lparr>n = 0, a = 0, q = 0, peak = 0\<rparr>" "S @ [(x, y)]"
      "\<lparr>n = 0, a = 0, q = 0, peak = 0\<rparr>"]
  by (simp add: Accum_init_def)

text \<open>A restarting event empties both accumulators and stores the empty statistics.\<close>

lemma handle_event_reset:
  "is_reset rst \<Longrightarrow>
   \<exists>g'. handle_event g rst = Inr g'
        \<and> accum_ra g' = Accum_init \<and> accum_dec g' = Accum_init
        \<and> Stats g' = GuideStats_init \<and> accum_active g'
        \<and> Guider.terminate g' = Guider.terminate g"
  by (cases rst) (simp_all add: Reset_Accum_init accum_get_stats_init Let_def)

text \<open>Any other event adds its sample, if it has one and the statistics are active.\<close>

lemma handle_event_tracks:
  assumes "accum_ra g = foldl Add Accum_init (map fst S)"
    and "accum_dec g = foldl Add Accum_init (map snd S)"
    and "Stats g = stats_spec S"
    and "\<not> is_reset ev"
  shows "\<exists>g'. handle_event g ev = Inr g'
        \<and> accum_ra g'
            = foldl Add Accum_init
                (map fst (S @ (if accum_active g then samples_of [ev] else [])))
        \<and> accum_dec g'
            = foldl Add Accum_init
                (map snd (S @ (if accum_active g then samples_of [ev] else [])))
        \<and> Stats g' = stats_spec (S @ (if accum_active g then samples_of [ev] else []))
        \<and> accum_active g' = (accum_active g \<and> ev \<noteq> SettleBegin)
        \<and> Guider.terminate g' = Guider.terminate g"
  using assms by (cases ev) (simp_all add: Let_def accum_get_stats_snoc)

lemma samples_of_Cons: "samples_of (ev # evs) = samples_of [ev] @ samples_of evs"
  by (cases ev) simp_all

lemma counted_samples_Cons:
  "counted_samples (ev # evs)
   = (if ev = SettleBegin then [] else samples_of [ev] @ counted_samples evs)"
  by (simp add: counted_samples_def samples_of_Cons [of ev "takeWhile _ evs"])

lemma worker_tracks:
  "accum_ra g = foldl Add Accum_init (map fst S) \<Longrightarrow>
   accum_dec g = foldl Add Accum_init (map snd S) \<Longrightarrow>
   Stats g = stats_spec S \<Longrightarrow>
   \<not> Guider.terminate g \<Longrightarrow>
   \<forall>ev\<in>set post. \<not> is_reset ev \<Longrightarrow>
   \<exists>g'. worker g (map Event post) = Inr g'
        \<and> Stats g' = stats_spec (S @ (if accum_active g then counted_samples post else []))"
proof (induction post arbitrary: g S)
  case Nil
  then show ?case by (simp add: counted_samples_def)
next
  case (Cons ev post)
  define S1 where "S1 = S @ (if accum_active g then samples_of [ev] else [])"
  from Cons.prems(5) have nr: "\<not> is_reset ev" and rest: "\<forall>ev\<in>set post. \<not> is_reset ev"
    by simp_all
  from handle_event_tracks [OF Cons.prems(1,2,3) nr]
  obtain g1 where h: "handle_event g ev = Inr g1"
    and t: "accum_ra g1 = foldl Add Accum_init (map fst S1)"
      "accum_dec g1 = foldl Add Accum_init (map snd S1)"
      "Stats g1 = stats_spec S1"
    and act: "accum_active g1 = (accum_active g \<and> ev \<noteq> SettleBegin)"
    and tm: "Guider.terminate g1 = Guider.terminate g"
    unfolding S1_def by blast
  from Cons.IH [OF t _ rest] tm Cons.prems(4)
  obtain g' where w: "worker g1 (map Event post) = Inr g'"
    and st: "Stats g'
        = stats_spec (S1 @ (if accum_active g1 then counted_samples post else []))"
    by auto
  have "S1 @ (if accum_active g1 then counted_samples post else [])
      = S @ (if accum_active g then counted_samples (ev # post) else [])"
    by (simp add: S1_def act counted_samples_Cons)
  then show ?case
    using w st h Cons.prems(4) by (simp add: worker_step_def)
qed

text \<open>The reader does not stop on accumulators that \<open>Reset\<close> and \<open>Add\<close> have built.\<close>

lemma handle_event_ok:
  "accum_ok (accum_ra g) \<Longrightarrow> accum_ok (accum_dec g) \<Longrightarrow>
   \<exists>g'. handle_event g ev = Inr g' \<and> accum_ok (accum_ra g') \<and> accum_ok (accum_dec g')
        \<and> Guider.terminate g' = Guider.terminate g"
proof (cases ev)
  case (GuideStep x y avg)
  assume ok: "accum_ok (accum_ra g)" "accum_ok (accum_dec g)"
  from accum_ok_get_stats [OF accum_ok_Add [OF ok(1), of x] accum_ok_Add [OF ok(2), of y]]
  obtain st where "accum_get_stats (Add (accum_ra g) x) (Add (accum_dec g) y) = Inr st"
    by blast
  then show ?thesis using GuideStep ok by (simp add: Let_def accum_ok_Add)
qed (simp_all add: Let_def Reset_Accum_init accum_get_stats_init accum_ok_init)

lemma worker_ok:
  "accum_ok (accum_ra g) \<Longrightarrow> accum_ok (accum_dec g) \<Longrightarrow> \<not> Guider.terminate g \<Longrightarrow>
   \<exists>g'. worker g (map Event evs) = Inr g' \<and> accum_ok (accum_ra g')
        \<and> accum_ok (accum_dec g') \<and> \<not> Guider.terminate g'"
proof (induction evs arbitrary: g)
  case Nil
  then show ?case by simp
next
  case (Cons ev evs)
  from handle_event_ok [OF Cons.prems(1,2), of ev]
  obtain g1 where h: "handle_event g ev = Inr g1" and ok: "accum_ok (accum_ra g1)"
    "accum_ok (accum_dec g1)" and tm: "Guider.terminate g1 = Guider.terminate g"
    by blast
  from Cons.IH [OF ok] tm Cons.prems(3) h show ?case
    by (simp add: worker_step_def)
qed

lemma worker_terminated: "Guider.terminate g \<Longrightarrow> worker g ms = Inr g"
  by (cases ms) simp_all

lemma worker_append:
  "worker g (xs @ ys) = (case worker g xs of Inl e \<Rightarrow> Inl e | Inr g1 \<Rightarrow> worker g1 ys)"
proof (induction xs arbitrary: g)
  case Nil
  show ?case by simp
next
  case (Cons m ms)
  show ?case
  proof (cases "Guider.terminate g")
    case True
    then show ?thesis by (simp add: worker_terminated)
  next
    case False
    then show ?thesis by (simp add: Cons.IH split: sum.splits)
  qed
qed

lemma since_reset_split:
  assumes "\<exists>ev\<in>set evs. is_reset ev"
  shows "\<exists>pre rst. evs = pre @ rst # since_reset evs \<and> is_reset rst"
    and "\<forall>ev\<in>set (since_reset evs). \<not> is_reset ev"
proof -
  let ?P = "\<lambda>ev. \<not> is_reset ev"
  from assms have "dropWhile ?P (rev evs) \<noteq> []" by simp
  then obtain r rest where d: "dropWhile ?P (rev evs) = r # rest"
    by (cases "dropWhile ?P (rev evs)") auto
  then have r: "is_reset r" using hd_dropWhile [of ?P "rev evs"] by auto
  have "rev evs = takeWhile ?P (rev evs) @ r # rest"
    using takeWhile_dropWhile_id [of ?P "rev evs"] d by simp
  then have "rev (rev evs) = rev (takeWhile ?P (rev evs) @ r # rest)" by simp
  then have "evs = rev rest @ r # since_reset evs"
    by (simp add: since_reset_def)
  then show "\<exists>pre rst. evs = pre @ rst # since_reset evs \<and> is_reset rst"
    using r by blast
  show "\<forall>ev\<in>set (since_reset evs). \<not> is_reset ev"
    by (auto simp add: since_reset_def dest: set_takeWhileD)
qed

lemma Stats_since_reset:
  assumes ok: "accum_ok (accum_ra g)" "accum_ok (accum_dec g)"
    and tm: "\<not> Guider.terminate g"
    and ex: "\<exists>ev\<in>set evs. is_reset ev"
  shows "\<exists>g'. worker g (map Event evs) = Inr g'
        \<and> Stats g' = stats_spec (counted_samples (since_reset evs))"
proof -
  from since_reset_split [OF ex] obtain pre rst
    where evs: "evs = pre @ rst # since_reset evs" and rst: "is_reset rst"
      and nr: "\<forall>ev\<in>set (since_reset evs). \<not> is_reset ev"
    by blast
  from worker_ok [OF ok tm, of pre] obtain g1
    where w1: "worker g (map Event pre) = Inr g1" and tm1: "\<not> Guider.terminate g1"
    by blast
  from handle_event_reset [OF rst, of g1] obtain g2
    where h: "handle_event g1 rst = Inr g2"
      and z: "accum_ra g2 = Accum_init" "accum_dec g2 = Accum_init"
        "Stats g2 = GuideStats_init" "accum_active g2"
      and tm2: "Guider.terminate g2 = Guider.terminate g1"
    by blast
  from worker_tracks [of g2 "[]" "since_reset evs"] z tm1 tm2 nr obtain g'
    where w2: "worker g2 (map Event (since_reset evs)) = Inr g'"
      and st: "Stats g' = stats_spec (counted_samples (since_reset evs))"
    by (auto simp add: stats_spec_Nil)
  have "worker g (map Event (pre @ rst # since_reset evs)) = Inr g'"
    using w1 h w2 tm1 by (simp add: worker_append worker_step_def)
  then show ?thesis using st evs by auto
qed

lemma since_reset_snoc: "is_reset rst \<Longrightarrow> since_reset (evs @ [rst]) = []"
  by (simp add: since_reset_def)

text \<open>
  Claim C1, as stated: after a sequence of events that ends with \<open>SettleDone\<close>, \<open>Stats\<close>
  reflects exactly the samples of the \<open>GuideStep\<close> events received after the most recent
  \<open>StartGuiding\<close> or \<open>SettleDone\<close> before it and not between \<open>SettleBegin\<close> and this
  \<open>SettleDone\<close>. It fails: with the samples (1, -1) and (3, 1) received after
  \<open>StartGuiding\<close> and before \<open>SettleBegin\<close>, their statistics are rms 1 and 1 and peaks 3
  and 1, but after \<open>SettleDone\<close> the stored \<open>Stats\<close> is all 0.
\<close>

theorem Stats_after_SettleDone_counterexample:
  "map_sum id Stats
     (worker (Guider_init ''localhost'' 1)
        (map Event [StartGuiding, GuideStep 1 (- 1) 1, GuideStep 3 1 2, SettleBegin,
                    GuideStep 9 9 9, SettleDone 0 None]))
   = Inr \<lparr>rms_tot = 0, rms_ra = 0, rms_dec = 0, peak_ra = 0, peak_dec = 0\<rparr>
   \<and> stats_spec (counted_samples (since_reset
         [StartGuiding, GuideStep 1 (- 1) 1, GuideStep 3 1 2, SettleBegin, GuideStep 9 9 9]))
     = \<lparr>rms_tot = 0, rms_ra = 1, rms_dec = 1, peak_ra = 3, peak_dec = 1\<rparr>"
proof -
  have "map_sum id Stats
     (worker (Guider_init ''localhost'' 1)
        (map Event [StartGuiding, GuideStep 1 (- 1) 1, GuideStep 3 1 2, SettleBegin,
                    GuideStep 9 9 9, SettleDone 0 None]))
   = Inr \<lparr>rms_tot = 0, rms_ra = 0, rms_dec = 0, peak_ra = 0, peak_dec = 0\<rparr>"
    by (simp add: Guider_init_def worker_step_def Let_def accum_get_stats_def Stdev_def
        Peak_def Add_def Reset_def Accum_init_def GuideStats_init_def
        SettleProgress_init_def)
  moreover have "stats_spec (counted_samples (since_reset
         [StartGuiding, GuideStep 1 (- 1) 1, GuideStep 3 1 2, SettleBegin, GuideStep 9 9 9]))
     = \<lparr>rms_tot = 0, rms_ra = 1, rms_dec = 1, peak_ra = 3, peak_dec = 1\<rparr>"
    by (simp add: since_reset_def counted_samples_def stats_spec_def rms_spec_def
        peak_spec_def power2_eq_square)
  ultimately show ?thesis by simp
qed

text \<open>
  Claim C1, amended. When the reader has handled a sequence of events that ends with
  \<open>SettleDone\<close>, the accumulators have just been reset and the stored \<open>Stats\<close> is all 0:
  no sample contributes, also none received before \<open>SettleBegin\<close>. More generally, after
  any sequence of events that holds a \<open>StartGuiding\<close> or \<open>SettleDone\<close>, \<open>Stats\<close> reflects
  exactly the \<open>GuideStep\<close> samples (\<open>RADistanceRaw\<close> for RA, \<open>DECDistanceRaw\<close> for Dec)
  received after the most recent \<open>StartGuiding\<close> or \<open>SettleDone\<close> of the sequence and
  before the first \<open>SettleBegin\<close> that follows it: \<open>rms_ra\<close>, \<open>rms_dec\<close> are the root mean
  squared deviations and \<open>peak_ra\<close>, \<open>peak_dec\<close> the largest absolute values of these
  samples, and no other sample contributes. The reader thread is running and starts
  from accumulators on which \<open>Stdev\<close> does not raise, as \<open>Reset\<close> and \<open>Add\<close> leave them.
\<close>

theorem Stats_reflect_samples:
  "\<not> Guider.terminate g \<and> accum_ok (accum_ra g) \<and> accum_ok (accum_dec g) \<longrightarrow>
     (\<forall>status err.
        \<exists>g'. worker g (map Event (evs @ [SettleDone status err])) = Inr g'
             \<and> Stats g' = \<lparr>rms_tot = 0, rms_ra = 0, rms_dec = 0, peak_ra = 0, peak_dec = 0\<rparr>)
   \<and> ((\<exists>ev\<in>set evs. is_reset ev) \<longrightarrow>
        (\<exists>g'. worker g (map Event evs) = Inr g'
             \<and> Stats g' = stats_spec (counted_samples (since_reset evs))))"
proof (intro impI conjI allI)
  fix status err
  assume a: "\<not> Guider.terminate g \<and> accum_ok (accum_ra g) \<and> accum_ok (accum_dec g)"
  have "\<exists>ev\<in>set (evs @ [SettleDone status err]). is_reset ev" by simp
  from Stats_since_reset [OF _ _ _ this, of g] a
  show "\<exists>g'. worker g (map Event (evs @ [SettleDone status err])) = Inr g'
             \<and> Stats g' = \<lparr>rms_tot = 0, rms_ra = 0, rms_dec = 0, peak_ra = 0, peak_dec = 0\<rparr>"
    by (simp add: since_reset_snoc counted_samples_def stats_spec_Nil GuideStats_init_def)
next
  assume "\<not> Guider.terminate g \<and> accum_ok (accum_ra g) \<and> accum_ok (accum_dec g)"
    and "\<exists>ev\<in>set evs. is_reset ev"
  then show "\<exists>g'. worker g (map Event evs) = Inr g'
             \<and> Stats g' = stats_spec (counted_samples (since_reset evs))"
    using Stats_since_reset [of g evs] by blast
qed

theorem Stats_reflect_samples_witness:
  "let g = Guider_init ''localhost'' 1;
       evs = [StartGuiding, GuideStep 9 9 9, SettleBegin, GuideStep 8 8 8, SettleDone 0 None,
              GuideStep 1 (- 1) 1, OtherEvent ''GuidingDithered'', GuideStep 3 1 2,
              SettleBegin, GuideStep 7 7 7]
   in \<not> Guider.terminate g \<and> accum_ok (accum_ra g) \<and> accum_ok (accum_dec g)
      \<and> list_ex is_reset evs
      \<and> counted_samples (since_reset evs) = [(1, - 1), (3, 1)]
      \<and> (\<exists>g'. worker g (map Event evs) = Inr g'
             \<and> Stats g' = \<lparr>rms_tot = 0, rms_ra = 1, rms_dec = 1, peak_ra = 3, peak_dec = 1\<rparr>)
      \<and> (\<exists>g'. worker g (map Event (evs @ [SettleDone 0 None])) = Inr g'
             \<and> Stats g' = \<lparr>rms_tot = 0, rms_ra = 0, rms_dec = 0, peak_ra = 0, peak_dec = 0\<rparr>)"
proof -
  define g where "g = Guider_init ''localhost'' 1"
  define evs where "evs = [StartGuiding, GuideStep 9 9 9, SettleBegin, GuideStep 8 8 8,
      SettleDone 0 None, GuideStep 1 (- 1) 1, OtherEvent ''GuidingDithered'', GuideStep 3 1 2,
      SettleBegin, GuideStep 7 7 7]"
  have h: "\<not> Guider.terminate g" "accum_ok (accum_ra g)" "accum_ok (accum_dec g)"
    by (simp_all add: g_def Guider_init_def accum_ok_init)
  have r: "\<exists>ev\<in>set evs. is_reset ev" by (simp add: evs_def)
  have c: "counted_samples (since_reset evs) = [(1, - 1), (3, 1)]"
    by (simp add: evs_def since_reset_def counted_samples_def)
  have s: "stats_spec [(1, - 1), (3, 1)]
      = \<lparr>rms_tot = 0, rms_ra = 1, rms_dec = 1, peak_ra = 3, peak_dec = 1\<rparr>"
    by (simp add: stats_spec_def rms_spec_def peak_spec_def power2_eq_square)
  from Stats_reflect_samples [of g evs] h r
  have 1: "\<exists>g'. worker g (map Event evs) = Inr g'
             \<and> Stats g' = \<lparr>rms_tot = 0, rms_ra = 1, rms_dec = 1, peak_ra = 3, peak_dec = 1\<rparr>"
    unfolding c s by blast
  from Stats_reflect_samples [of g evs] h
  have 2: "\<exists>g'. worker g (map Event (evs @ [SettleDone 0 None])) = Inr g'
             \<and> Stats g' = \<lparr>rms_tot = 0, rms_ra = 0, rms_dec = 0, peak_ra = 0, peak_dec = 0\<rparr>"
    by blast
  show ?thesis
    unfolding Let_def g_def [symmetric] evs_def [symmetric]
    using h r c 1 2 by (simp add: list_ex_iff)
qed

end
